theory Spec2Isabelle
  imports Main "HOL-Library.Sublist"
begin

section \<open>OMESlicer: a shallow embedding of \<^verbatim>\<open>src/omeslicer/core.py\<close>\<close>

text \<open>
  The class \<^verbatim>\<open>OMESlicer\<close> holds a parsed OME metadata document and, for a cropped
  descriptor, a crop region. Python objects are mutable and shared by reference, so the
  embedding keeps them in an explicit store: descriptors and metadata documents live in
  two lists, an address is an index, allocation appends, and an attribute assignment is
  a list update. File and console effects are appended to a trace held in the same store.
  The image, TIFF and XML libraries are not part of the repository: what a file holds and
  whether a call on it succeeds is given by the fields of a record \<open>libs\<close> that every
  operation takes as a parameter. What the code relies on in the object model of the
  metadata and in the array constructor is written out: the pixel type is a member of an
  enumeration, a size is validated when it is assigned, and an array needs a buffer that
  is large enough.
\<close>

subsection \<open>Exceptions\<close>

datatype error =
    ValueError string
  | IndexError
  | TypeError string
  | ValidationError
  | LibraryError string

subsection \<open>The metadata document (the part of the OME object model the code touches)\<close>

text \<open>
  The declared pixel type is a member of the enumeration \<^verbatim>\<open>PixelType\<close>, whose value is
  the string of the schema. A member is not a string: it is equal to no string and is no
  key of a dictionary keyed by strings.
\<close>

datatype PixelType =
    INT8 | INT16 | INT32 | UINT8 | UINT16 | UINT32
  | FLOAT | DOUBLE | COMPLEXFLOAT | COMPLEXDOUBLE | BIT

fun PixelType_value :: "PixelType \<Rightarrow> string" where
  "PixelType_value INT8 = ''int8''"
| "PixelType_value INT16 = ''int16''"
| "PixelType_value INT32 = ''int32''"
| "PixelType_value UINT8 = ''uint8''"
| "PixelType_value UINT16 = ''uint16''"
| "PixelType_value UINT32 = ''uint32''"
| "PixelType_value FLOAT = ''float''"
| "PixelType_value DOUBLE = ''double''"
| "PixelType_value COMPLEXFLOAT = ''complex''"
| "PixelType_value COMPLEXDOUBLE = ''double-complex''"
| "PixelType_value BIT = ''bit''"

record Pixels =
  size_x :: int
  size_y :: int
  size_c :: int
  pixel_type :: PixelType

record Image =
  pixels :: Pixels

record OME =
  images :: "Image list"

subsection \<open>Element types and arrays\<close>

datatype dtype =
    np_uint8 | np_uint16 | np_uint32
  | np_int8 | np_int16 | np_int32
  | np_float32 | np_float64

record ndarray =
  buffer :: "nat list"
  dtype :: dtype
  shape :: "int list"

text \<open>The number of bytes of one element.\<close>

fun itemsize :: "dtype \<Rightarrow> nat" where
  "itemsize np_uint8 = 1"
| "itemsize np_int8 = 1"
| "itemsize np_uint16 = 2"
| "itemsize np_int16 = 2"
| "itemsize np_uint32 = 4"
| "itemsize np_int32 = 4"
| "itemsize np_float32 = 4"
| "itemsize np_float64 = 8"

text \<open>
  \<^verbatim>\<open>np.ndarray(buffer=..., dtype=..., shape=...)\<close>: a view of the buffer, refused when
  the buffer holds fewer bytes than the shape asks for in that element type.
\<close>

definition np_ndarray :: "nat list \<Rightarrow> dtype \<Rightarrow> int list \<Rightarrow> error + ndarray" where
  "np_ndarray buf dt sh =
     (if list_ex (\<lambda>n. n < 0) sh
      then Inl (ValueError ''negative dimensions are not allowed'')
      else if int (length buf) < int (itemsize dt) * prod_list sh
      then Inl (TypeError ''buffer is too small for requested array'')
      else Inr \<lparr>buffer = buf, dtype = dt, shape = sh\<rparr>)"

text \<open>The values used as dictionary keys: strings and members of the enumeration.\<close>

datatype key = Str string | Member PixelType

subsection \<open>Effects\<close>

text \<open>The keyword arguments of one \<^verbatim>\<open>tif.write\<close> call.\<close>

record write_call =
  data :: ndarray
  photometric :: string
  compression :: string
  tile :: "int \<times> int"
  dtype_arg :: dtype
  description :: "string option"
  metadata :: "string option"

datatype event =
    Print string
  | TiffFileRead string
  | NewFromFile string int string
  | VipsCrop int int int int
  | WriteToMemory
  | TiffWriterOpen string bool
  | TiffWrite write_call
  | TiffWriterClose string

subsection \<open>The external libraries\<close>

record 'img libs =
  tiff_ome_metadata :: "string \<Rightarrow> error + string option"
  from_xml :: "string option \<Rightarrow> error + OME"
  to_xml :: "OME \<Rightarrow> string"
  new_from_file :: "string \<Rightarrow> int \<Rightarrow> string \<Rightarrow> error + 'img"
  vips_crop :: "'img \<Rightarrow> int \<Rightarrow> int \<Rightarrow> int \<Rightarrow> int \<Rightarrow> error + 'img"
  vips_width :: "'img \<Rightarrow> int"
  vips_height :: "'img \<Rightarrow> int"
  write_to_memory :: "'img \<Rightarrow> error + nat list"
  tiff_writer_open :: "string \<Rightarrow> bool \<Rightarrow> error option"
  tiff_write :: "write_call \<Rightarrow> error option"

subsection \<open>Descriptors and the store\<close>

record 'img slicer =
  ome_tiff_path :: string
  pyvips_image :: "'img option"
  ome_metadata :: "string option"
  ome :: nat
  crop_info :: "(int \<times> int \<times> int \<times> int) option"
  cropped_dimensions :: "(int \<times> int) option"

record 'img store =
  slicers :: "'img slicer list"
  docs :: "OME list"
  trace :: "event list"

definition log :: "event \<Rightarrow> 'img store \<Rightarrow> 'img store" where
  "log e s = s\<lparr>trace := trace s @ [e]\<rparr>"

text \<open>\<^verbatim>\<open>copy.deepcopy\<close> of a document: a fresh cell with the same content.\<close>

definition deepcopy :: "nat \<Rightarrow> 'img store \<Rightarrow> nat \<times> 'img store" where
  "deepcopy a s = (length (docs s), s\<lparr>docs := docs s @ [docs s ! a]\<rparr>)"

text \<open>\<^verbatim>\<open>doc.images[0]\<close>: an empty list raises.\<close>

definition first_image :: "OME \<Rightarrow> error + Image" where
  "first_image d = (case images d of [] \<Rightarrow> Inl IndexError | im # _ \<Rightarrow> Inr im)"

text \<open>
  \<^verbatim>\<open>xs[i]\<close> on a list: an index from \<open>0\<close> counts from the front, one from \<open>-1\<close>
  down to \<open>-len(xs)\<close> counts from the back, any other raises.
\<close>

definition getitem :: "'a list \<Rightarrow> int \<Rightarrow> error + 'a" where
  "getitem xs i =
     (if 0 \<le> i \<and> i < int (length xs) then Inr (xs ! nat i)
      else if i < 0 \<and> - int (length xs) \<le> i then Inr (xs ! nat (int (length xs) + i))
      else Inl IndexError)"

text \<open>\<^verbatim>\<open>range(n)\<close> for an integer \<open>n\<close>.\<close>

definition range :: "int \<Rightarrow> int list" where
  "range n = map int [0..<nat n]"

text \<open>\<^verbatim>\<open>str(i)\<close> for an integer, as the f-strings of \<^verbatim>\<open>save\<close> format it.\<close>

fun digits :: "nat \<Rightarrow> string" where
  "digits n =
     (if n < 10 then [''0123456789'' ! n]
      else digits (n div 10) @ [''0123456789'' ! (n mod 10)])"

declare digits.simps [simp del]

definition str :: "int \<Rightarrow> string" where
  "str i = (if i < 0 then CHR ''-'' # digits (nat (- i)) else digits (nat i))"

subsection \<open>Construction\<close>

text \<open>\<^verbatim>\<open>_load_ome_metadata\<close>: reads \<^verbatim>\<open>self.ome_tiff_path\<close> only.\<close>

definition load_ome_metadata ::
  "'img libs \<Rightarrow> 'img store \<Rightarrow> string \<Rightarrow> (error + string option) \<times> 'img store" where
  "load_ome_metadata L s path = (tiff_ome_metadata L path, log (TiffFileRead path) s)"

text \<open>
  \<^verbatim>\<open>_update_metadata_for_crop\<close>: reads \<^verbatim>\<open>self.ome\<close> only, so the embedding takes
  that address. The sizes are assigned in a second deep copy; \<^verbatim>\<open>self.ome\<close> itself is
  not written. The object model validates a size when it is assigned: a value below 1
  raises and leaves the field as it was.
\<close>

definition update_metadata_for_crop ::
  "'img libs \<Rightarrow> 'img store \<Rightarrow> nat \<Rightarrow> int \<Rightarrow> int \<Rightarrow> (error + string) \<times> 'img store" where
  "update_metadata_for_crop L s self_ome width height =
     (let (cropped_ome, s1) = deepcopy self_ome s in
      case images (docs s1 ! cropped_ome) of
        [] \<Rightarrow> (Inl IndexError, s1)
      | im # rest \<Rightarrow>
          if width < 1 then (Inl ValidationError, s1)
          else
            let d1 = (docs s1 ! cropped_ome)
                       \<lparr>images := im\<lparr>pixels := (pixels im)\<lparr>size_x := width\<rparr>\<rparr> # rest\<rparr>;
                s2 = s1\<lparr>docs := (docs s1)[cropped_ome := d1]\<rparr>
            in if height < 1 then (Inl ValidationError, s2)
               else
                 let d2 = (docs s1 ! cropped_ome)
                            \<lparr>images := im\<lparr>pixels := (pixels im)\<lparr>size_x := width,
                                                                  size_y := height\<rparr>\<rparr> # rest\<rparr>;
                     s3 = s2\<lparr>docs := (docs s2)[cropped_ome := d2]\<rparr>
                 in (Inr (to_xml L (docs s3 ! cropped_ome)), s3))"

definition init_from_path ::
  "'img libs \<Rightarrow> 'img store \<Rightarrow> string \<Rightarrow> (error + nat) \<times> 'img store" where
  "init_from_path L s path =
     (case load_ome_metadata L s path of
        (Inl e, s1) \<Rightarrow> (Inl e, s1)
      | (Inr md, s1) \<Rightarrow>
          (case from_xml L md of
             Inl e \<Rightarrow> (Inl e, s1)
           | Inr doc \<Rightarrow>
               let s2 = s1\<lparr>docs := docs s1 @ [doc]\<rparr>;
                   self = \<lparr>ome_tiff_path = path, pyvips_image = None, ome_metadata = md,
                           ome = length (docs s1), crop_info = None,
                           cropped_dimensions = None\<rparr>
               in (Inr (length (slicers s2)), s2\<lparr>slicers := slicers s2 @ [self]\<rparr>)))"

definition init_from_existing ::
  "'img libs \<Rightarrow> 'img store \<Rightarrow> nat \<Rightarrow> int \<Rightarrow> int \<Rightarrow> int \<Rightarrow> int \<Rightarrow> (error + nat) \<times> 'img store" where
  "init_from_existing L s existing_slicer x y width height =
     (let (self_ome, s1) = deepcopy (ome (slicers s ! existing_slicer)) s in
      case update_metadata_for_crop L s1 self_ome width height of
        (Inl e, s2) \<Rightarrow> (Inl e, s2)
      | (Inr md, s2) \<Rightarrow>
          let self = \<lparr>ome_tiff_path = ome_tiff_path (slicers s ! existing_slicer),
                      pyvips_image = None, ome_metadata = Some md, ome = self_ome,
                      crop_info = Some (x, y, width, height),
                      cropped_dimensions = Some (width, height)\<rparr>
          in (Inr (length (slicers s2)), s2\<lparr>slicers := slicers s2 @ [self]\<rparr>))"

text \<open>
  \<^verbatim>\<open>__init__\<close>. A path is taken when it is a non-empty string; a descriptor object is
  always true. The new descriptor enters the store when the constructor returns.
\<close>

definition OMESlicer_init ::
  "'img libs \<Rightarrow> 'img store \<Rightarrow> string option \<Rightarrow> nat option \<Rightarrow> int \<Rightarrow> int \<Rightarrow> int \<Rightarrow> int
     \<Rightarrow> (error + nat) \<times> 'img store" where
  "OMESlicer_init L s path_arg existing_slicer x y width height =
     (if path_arg \<noteq> None \<and> path_arg \<noteq> Some []
      then init_from_path L s (the path_arg)
      else case existing_slicer of
             Some e \<Rightarrow> init_from_existing L s e x y width height
           | None \<Rightarrow>
               (Inl (ValueError ''Either ome_tiff_path or existing_slicer must be provided.''), s))"

definition crop ::
  "'img libs \<Rightarrow> 'img store \<Rightarrow> nat \<Rightarrow> int \<Rightarrow> int \<Rightarrow> int \<Rightarrow> int \<Rightarrow> (error + nat) \<times> 'img store" where
  "crop L s self x y width height = OMESlicer_init L s None (Some self) x y width height"

subsection \<open>Queries\<close>

text \<open>The queries assign nothing, so they read the store and return no new one.\<close>

definition get_image_dimensions :: "'img store \<Rightarrow> nat \<Rightarrow> error + int \<times> int \<times> int" where
  "get_image_dimensions s self =
     (let me = slicers s ! self in
      case cropped_dimensions me of
        Some (width, height) \<Rightarrow>
          (case first_image (docs s ! ome me) of
             Inl e \<Rightarrow> Inl e
           | Inr im \<Rightarrow> Inr (width, height, size_c (pixels im)))
      | None \<Rightarrow>
          (case first_image (docs s ! ome me) of
             Inl e \<Rightarrow> Inl e
           | Inr im \<Rightarrow> Inr (size_x (pixels im), size_y (pixels im), size_c (pixels im))))"

definition get_number_of_channels :: "'img store \<Rightarrow> nat \<Rightarrow> error + int" where
  "get_number_of_channels s self =
     (case first_image (docs s ! ome (slicers s ! self)) of
        Inl e \<Rightarrow> Inl e
      | Inr im \<Rightarrow> Inr (size_c (pixels im)))"

text \<open>
  The table of \<^verbatim>\<open>get_dtype_from_metadata\<close> is keyed by strings; the key looked up is
  \<^verbatim>\<open>pixels.type\<close>, a member of the enumeration.
\<close>

definition dtype_map :: "(key \<times> dtype) list" where
  "dtype_map =
     [(Str ''uint8'', np_uint8), (Str ''uint16'', np_uint16), (Str ''uint32'', np_uint32),
      (Str ''int8'', np_int8), (Str ''int16'', np_int16), (Str ''int32'', np_int32),
      (Str ''float'', np_float32), (Str ''double'', np_float64)]"

definition get_dtype_from_metadata :: "'img store \<Rightarrow> nat \<Rightarrow> error + dtype" where
  "get_dtype_from_metadata s self =
     (case first_image (docs s ! ome (slicers s ! self)) of
        Inl e \<Rightarrow> Inl e
      | Inr im \<Rightarrow>
          Inr (case map_of dtype_map (Member (pixel_type (pixels im))) of
                 Some t \<Rightarrow> t
               | None \<Rightarrow> np_uint16))"

definition get_ome_metadata :: "'img store \<Rightarrow> nat \<Rightarrow> string option" where
  "get_ome_metadata s self = ome_metadata (slicers s ! self)"

subsection \<open>The cached page image\<close>

text \<open>An image object is true, so the cache is refilled only while it holds \<^verbatim>\<open>None\<close>.\<close>

definition load_pyvips_image ::
  "'img libs \<Rightarrow> 'img store \<Rightarrow> nat \<Rightarrow> int \<Rightarrow> (error + 'img) \<times> 'img store" where
  "load_pyvips_image L s self page =
     (case pyvips_image (slicers s ! self) of
        Some img \<Rightarrow> (Inr img, s)
      | None \<Rightarrow>
          let s1 = log (NewFromFile (ome_tiff_path (slicers s ! self)) page ''sequential'') s in
          (case new_from_file L (ome_tiff_path (slicers s ! self)) page ''sequential'' of
             Inl e \<Rightarrow> (Inl e, s1)
           | Inr img \<Rightarrow>
               (Inr img,
                s1\<lparr>slicers := (slicers s1)[self := (slicers s1 ! self)\<lparr>pyvips_image := Some img\<rparr>]\<rparr>)))"

subsection \<open>Saving\<close>

text \<open>
  \<^verbatim>\<open>save\<close> assigns no attribute: all it does is call the libraries and print. Its
  loops therefore return the list of events they perform, in order, and \<open>save\<close> appends
  that list to the trace of the store.
\<close>

text \<open>One pass of the extraction loop, for channel \<open>c\<close>.\<close>

definition extract_channel ::
  "'img libs \<Rightarrow> string \<Rightarrow> int \<Rightarrow> int \<Rightarrow> int \<Rightarrow> int \<Rightarrow> dtype \<Rightarrow> int \<Rightarrow> int
     \<Rightarrow> (error + ndarray) \<times> event list" where
  "extract_channel L path x y width height dt num_channels c =
     (let ev1 = [Print (''Processing channel '' @ str (c + 1) @ ''/'' @ str num_channels),
                 NewFromFile path c ''sequential'']
      in case new_from_file L path c ''sequential'' of
           Inl e \<Rightarrow> (Inl e, ev1)
         | Inr channel_image \<Rightarrow>
             let ev2 = ev1 @ [VipsCrop x y width height]
             in (case vips_crop L channel_image x y width height of
                   Inl e \<Rightarrow> (Inl e, ev2)
                 | Inr cropped_channel \<Rightarrow>
                     let ev3 = ev2 @ [WriteToMemory]
                     in (case write_to_memory L cropped_channel of
                           Inl e \<Rightarrow> (Inl e, ev3)
                         | Inr buf \<Rightarrow>
                             (case np_ndarray buf dt
                                     [vips_height L cropped_channel, vips_width L cropped_channel] of
                                Inl e \<Rightarrow> (Inl e, ev3)
                              | Inr channel_array \<Rightarrow> (Inr channel_array, ev3)))))"

fun extract_channels ::
  "'img libs \<Rightarrow> string \<Rightarrow> int \<Rightarrow> int \<Rightarrow> int \<Rightarrow> int \<Rightarrow> dtype \<Rightarrow> int \<Rightarrow> int list
     \<Rightarrow> ndarray list \<Rightarrow> (error + ndarray list) \<times> event list" where
  "extract_channels L path x y width height dt num_channels [] cropped_channel_arrays =
     (Inr cropped_channel_arrays, [])"
| "extract_channels L path x y width height dt num_channels (c # cs) cropped_channel_arrays =
     (case extract_channel L path x y width height dt num_channels c of
        (Inl e, evs) \<Rightarrow> (Inl e, evs)
      | (Inr channel_array, evs) \<Rightarrow>
          (case extract_channels L path x y width height dt num_channels cs
                  (cropped_channel_arrays @ [channel_array]) of
             (r, evs') \<Rightarrow> (r, evs @ evs')))"

text \<open>The keyword arguments \<^verbatim>\<open>save\<close> passes to \<^verbatim>\<open>tif.write\<close> for channel \<open>c\<close>.\<close>

definition write_args :: "string option \<Rightarrow> ndarray \<Rightarrow> int \<Rightarrow> write_call" where
  "write_args md arr c =
     \<lparr>data = arr, photometric = ''minisblack'', compression = ''lzw'', tile = (512, 512),
      dtype_arg = np_uint16, description = (if c = 0 then md else None), metadata = None\<rparr>"

text \<open>One pass of the writing loop.\<close>

definition write_channel ::
  "'img libs \<Rightarrow> string option \<Rightarrow> ndarray list \<Rightarrow> int \<Rightarrow> int \<Rightarrow> (error + unit) \<times> event list" where
  "write_channel L md cropped_channel_arrays num_channels c =
     (let ev1 = [Print (''Writing channel '' @ str (c + 1) @ ''/'' @ str num_channels)]
      in case getitem cropped_channel_arrays c of
           Inl e \<Rightarrow> (Inl e, ev1)
         | Inr arr \<Rightarrow>
             let ev2 = ev1 @ [TiffWrite (write_args md arr c)]
             in (case tiff_write L (write_args md arr c) of
                   Some e \<Rightarrow> (Inl e, ev2)
                 | None \<Rightarrow> (Inr (), ev2)))"

fun write_channels ::
  "'img libs \<Rightarrow> string option \<Rightarrow> ndarray list \<Rightarrow> int \<Rightarrow> int list \<Rightarrow> (error + unit) \<times> event list" where
  "write_channels L md cropped_channel_arrays num_channels [] = (Inr (), [])"
| "write_channels L md cropped_channel_arrays num_channels (c # cs) =
     (case write_channel L md cropped_channel_arrays num_channels c of
        (Inl e, evs) \<Rightarrow> (Inl e, evs)
      | (Inr _, evs) \<Rightarrow>
          (case write_channels L md cropped_channel_arrays num_channels cs of
             (r, evs') \<Rightarrow> (r, evs @ evs')))"

text \<open>
  The body of \<^verbatim>\<open>save\<close>. A stored crop region is a 4-tuple and so always true; only
  \<^verbatim>\<open>None\<close> raises. The \<^verbatim>\<open>with\<close> block closes the writer on both exits.
\<close>

definition save_effects ::
  "'img libs \<Rightarrow> 'img store \<Rightarrow> nat \<Rightarrow> string \<Rightarrow> (error + unit) \<times> event list" where
  "save_effects L s self output_path =
     (let me = slicers s ! self in
      case crop_info me of
        None \<Rightarrow> (Inl (ValueError ''This slicer instance has no crop info; nothing to save.''), [])
      | Some (x, y, width, height) \<Rightarrow>
          (case get_number_of_channels s self of
             Inl e \<Rightarrow> (Inl e, [])
           | Inr num_channels \<Rightarrow>
               (case get_dtype_from_metadata s self of
                  Inl e \<Rightarrow> (Inl e, [])
                | Inr dt \<Rightarrow>
                    (case extract_channels L (ome_tiff_path me) x y width height dt
                            num_channels (range num_channels) [] of
                       (Inl e, evs) \<Rightarrow> (Inl e, evs)
                     | (Inr cropped_channel_arrays, evs) \<Rightarrow>
                         (case tiff_writer_open L output_path True of
                            Some e \<Rightarrow> (Inl e, evs @ [TiffWriterOpen output_path True])
                          | None \<Rightarrow>
                              (case write_channels L (ome_metadata me) cropped_channel_arrays
                                      num_channels (range num_channels) of
                                 (r, evs') \<Rightarrow>
                                   (r, evs @ [TiffWriterOpen output_path True] @ evs'
                                         @ [TiffWriterClose output_path])))))))"

definition save :: "'img libs \<Rightarrow> 'img store \<Rightarrow> nat \<Rightarrow> string \<Rightarrow> (error + unit) \<times> 'img store" where
  "save L s self output_path =
     (case save_effects L s self output_path of
        (r, evs) \<Rightarrow> (r, s\<lparr>trace := trace s @ evs\<rparr>))"

subsection \<open>Reading a trace\<close>

text \<open>The pages handed to the writer, in the order of the calls.\<close>

fun written_pages :: "event list \<Rightarrow> write_call list" where
  "written_pages [] = []"
| "written_pages (TiffWrite call # evs) = call # written_pages evs"
| "written_pages (_ # evs) = written_pages evs"

text \<open>The page numbers opened for decoding, in the order of the calls.\<close>

fun decoded_pages :: "event list \<Rightarrow> int list" where
  "decoded_pages [] = []"
| "decoded_pages (NewFromFile _ page _ # evs) = page # decoded_pages evs"
| "decoded_pages (_ # evs) = decoded_pages evs"

text \<open>Events of the extraction phase and of the writing phase.\<close>

fun is_extraction :: "event \<Rightarrow> bool" where
  "is_extraction (NewFromFile _ _ _) = True"
| "is_extraction (VipsCrop _ _ _ _) = True"
| "is_extraction WriteToMemory = True"
| "is_extraction _ = False"

fun is_output :: "event \<Rightarrow> bool" where
  "is_output (TiffWriterOpen _ _) = True"
| "is_output (TiffWrite _) = True"
| "is_output (TiffWriterClose _) = True"
| "is_output _ = False"

text \<open>What a complete extraction of channel \<open>c\<close> leaves in the trace.\<close>

definition channel_events :: "string \<Rightarrow> int \<Rightarrow> int \<Rightarrow> int \<Rightarrow> int \<Rightarrow> int \<Rightarrow> int \<Rightarrow> event list" where
  "channel_events path x y width height num_channels c =
     [Print (''Processing channel '' @ str (c + 1) @ ''/'' @ str num_channels),
      NewFromFile path c ''sequential'', VipsCrop x y width height, WriteToMemory]"

subsection \<open>Client programs: sequences of crops\<close>

text \<open>
  Any number of \<^verbatim>\<open>crop\<close> calls, each on some descriptor of the store and each with
  its own region; the results are dropped, the store is kept.
\<close>

fun crop_calls ::
  "'img libs \<Rightarrow> 'img store \<Rightarrow> (nat \<times> int \<times> int \<times> int \<times> int) list \<Rightarrow> 'img store" where
  "crop_calls L s [] = s"
| "crop_calls L s ((target, x, y, width, height) # calls) =
     crop_calls L (snd (crop L s target x y width height)) calls"

text \<open>
  A chain \<^verbatim>\<open>d.crop(...).crop(...)\<close>: each crop is taken from the result of the one
  before, and an exception ends the chain.
\<close>

fun crop_chain ::
  "'img libs \<Rightarrow> 'img store \<Rightarrow> nat \<Rightarrow> (int \<times> int \<times> int \<times> int) list \<Rightarrow> (error + nat) \<times> 'img store" where
  "crop_chain L s d [] = (Inr d, s)"
| "crop_chain L s d ((x, y, width, height) # regions) =
     (case crop L s d x y width height of
        (Inl e, s1) \<Rightarrow> (Inl e, s1)
      | (Inr child, s1) \<Rightarrow> crop_chain L s1 child regions)"

subsection \<open>A small world to run the operations in\<close>

text \<open>
  Two source files of two channel pages of 100 by 80 samples each: \<^verbatim>\<open>in.ome.tiff\<close>
  declares \<^verbatim>\<open>uint8\<close> and its pages hold one byte per sample, \<^verbatim>\<open>in16.ome.tiff\<close>
  declares \<^verbatim>\<open>uint16\<close> and its pages hold two. An image is (page, width, height, bytes
  per sample); a crop outside the page fails, as does a page that the file does not have.
\<close>

definition example_doc :: OME where
  "example_doc =
     \<lparr>images = [\<lparr>pixels = \<lparr>size_x = 100, size_y = 80, size_c = 2, pixel_type = UINT8\<rparr>\<rparr>]\<rparr>"

definition example_doc16 :: OME where
  "example_doc16 =
     \<lparr>images = [\<lparr>pixels = \<lparr>size_x = 100, size_y = 80, size_c = 2, pixel_type = UINT16\<rparr>\<rparr>]\<rparr>"

definition example_xml :: "OME \<Rightarrow> string" where
  "example_xml d =
     (case images d of
        [] \<Rightarrow> ''<OME/>''
      | im # _ \<Rightarrow>
          ''<Pixels SizeX='' @ str (size_x (pixels im)) @ '' SizeY='' @ str (size_y (pixels im))
            @ '' SizeC='' @ str (size_c (pixels im))
            @ '' Type='' @ PixelType_value (pixel_type (pixels im)) @ ''/>'')"

definition example_libs :: "(int \<times> int \<times> int \<times> nat) libs" where
  "example_libs =
     \<lparr>tiff_ome_metadata =
        (\<lambda>p. if p = ''in.ome.tiff'' then Inr (Some (example_xml example_doc))
             else if p = ''in16.ome.tiff'' then Inr (Some (example_xml example_doc16))
             else Inl (LibraryError ''FileNotFoundError'')),
      from_xml =
        (\<lambda>m. if m = Some (example_xml example_doc) then Inr example_doc
             else if m = Some (example_xml example_doc16) then Inr example_doc16
             else Inl (LibraryError ''ValidationError'')),
      to_xml = example_xml,
      new_from_file =
        (\<lambda>p page access.
           if p = ''in.ome.tiff'' \<and> 0 \<le> page \<and> page < 2 then Inr (page, 100, 80, 1)
           else if p = ''in16.ome.tiff'' \<and> 0 \<le> page \<and> page < 2 then Inr (page, 100, 80, 2)
           else Inl (LibraryError ''pyvips.Error'')),
      vips_crop =
        (\<lambda>(page, iw, ih, bytes) x y w h.
           if 0 \<le> x \<and> 0 \<le> y \<and> 0 < w \<and> 0 < h \<and> x + w \<le> iw \<and> y + h \<le> ih
           then Inr (page, w, h, bytes) else Inl (LibraryError ''pyvips.Error'')),
      vips_width = (\<lambda>(page, iw, ih, bytes). iw),
      vips_height = (\<lambda>(page, iw, ih, bytes). ih),
      write_to_memory =
        (\<lambda>(page, iw, ih, bytes). Inr (replicate (nat (iw * ih) * bytes) (nat page))),
      tiff_writer_open = (\<lambda>p big. None),
      tiff_write = (\<lambda>call. None)\<rparr>"

definition empty_store :: "(int \<times> int \<times> int \<times> nat) store" where
  "empty_store = \<lparr>slicers = [], docs = [], trace = []\<rparr>"

text \<open>The store after \<^verbatim>\<open>OMESlicer("in.ome.tiff")\<close>: descriptor 0.\<close>

definition example_loaded :: "(int \<times> int \<times> int \<times> nat) store" where
  "example_loaded =
     snd (OMESlicer_init example_libs empty_store (Some ''in.ome.tiff'') None 0 0 0 0)"

text \<open>The store after a further \<^verbatim>\<open>crop(10, 20, 2, 1)\<close> of descriptor 0: descriptor 1.\<close>

definition example_cropped :: "(int \<times> int \<times> int \<times> nat) store" where
  "example_cropped = snd (crop example_libs example_loaded 0 10 20 2 1)"

text \<open>The same two steps on \<^verbatim>\<open>in16.ome.tiff\<close>.\<close>

definition example_loaded16 :: "(int \<times> int \<times> int \<times> nat) store" where
  "example_loaded16 =
     snd (OMESlicer_init example_libs empty_store (Some ''in16.ome.tiff'') None 0 0 0 0)"

definition example_cropped16 :: "(int \<times> int \<times> int \<times> nat) store" where
  "example_cropped16 = snd (crop example_libs example_loaded16 0 10 20 2 1)"

section \<open>Properties\<close>

subsection \<open>The example world, evaluated\<close>

lemma example_loaded_eq:
  "example_loaded =
     \<lparr>slicers =
        [\<lparr>ome_tiff_path = ''in.ome.tiff'', pyvips_image = None,
          ome_metadata = Some ''<Pixels SizeX=100 SizeY=80 SizeC=2 Type=uint8/>'',
          ome = 0, crop_info = None, cropped_dimensions = None\<rparr>],
      docs = [example_doc],
      trace = [TiffFileRead ''in.ome.tiff'']\<rparr>"
  by code_simp

lemma example_init:
  "OMESlicer_init example_libs empty_store (Some ''in.ome.tiff'') None 0 0 0 0
     = (Inr 0, example_loaded)"
  by code_simp

lemma example_cropped_eq:
  "example_cropped =
     \<lparr>slicers =
        [\<lparr>ome_tiff_path = ''in.ome.tiff'', pyvips_image = None,
          ome_metadata = Some ''<Pixels SizeX=100 SizeY=80 SizeC=2 Type=uint8/>'',
          ome = 0, crop_info = None, cropped_dimensions = None\<rparr>,
         \<lparr>ome_tiff_path = ''in.ome.tiff'', pyvips_image = None,
          ome_metadata = Some ''<Pixels SizeX=2 SizeY=1 SizeC=2 Type=uint8/>'',
          ome = 1, crop_info = Some (10, 20, 2, 1), cropped_dimensions = Some (2, 1)\<rparr>],
      docs =
        [example_doc, example_doc,
         \<lparr>images = [\<lparr>pixels = \<lparr>size_x = 2, size_y = 1, size_c = 2, pixel_type = UINT8\<rparr>\<rparr>]\<rparr>],
      trace = [TiffFileRead ''in.ome.tiff'']\<rparr>"
  by code_simp

lemma example_crop:
  "crop example_libs example_loaded 0 10 20 2 1 = (Inr 1, example_cropped)"
  by code_simp

lemma example_cropped16_eq:
  "example_cropped16 =
     \<lparr>slicers =
        [\<lparr>ome_tiff_path = ''in16.ome.tiff'', pyvips_image = None,
          ome_metadata = Some ''<Pixels SizeX=100 SizeY=80 SizeC=2 Type=uint16/>'',
          ome = 0, crop_info = None, cropped_dimensions = None\<rparr>,
         \<lparr>ome_tiff_path = ''in16.ome.tiff'', pyvips_image = None,
          ome_metadata = Some ''<Pixels SizeX=2 SizeY=1 SizeC=2 Type=uint16/>'',
          ome = 1, crop_info = Some (10, 20, 2, 1), cropped_dimensions = Some (2, 1)\<rparr>],
      docs =
        [example_doc16, example_doc16,
         \<lparr>images = [\<lparr>pixels = \<lparr>size_x = 2, size_y = 1, size_c = 2, pixel_type = UINT16\<rparr>\<rparr>]\<rparr>],
      trace = [TiffFileRead ''in16.ome.tiff'']\<rparr>"
  by code_simp

lemma example_save16:
  "save_effects example_libs example_cropped16 1 ''out.tiff'' =
     (Inr (),
      [Print ''Processing channel 1/2'', NewFromFile ''in16.ome.tiff'' 0 ''sequential'',
       VipsCrop 10 20 2 1, WriteToMemory,
       Print ''Processing channel 2/2'', NewFromFile ''in16.ome.tiff'' 1 ''sequential'',
       VipsCrop 10 20 2 1, WriteToMemory,
       TiffWriterOpen ''out.tiff'' True,
       Print ''Writing channel 1/2'',
       TiffWrite \<lparr>data = \<lparr>buffer = [0, 0, 0, 0], dtype = np_uint16, shape = [1, 2]\<rparr>,
                  photometric = ''minisblack'', compression = ''lzw'', tile = (512, 512),
                  dtype_arg = np_uint16,
                  description = Some ''<Pixels SizeX=2 SizeY=1 SizeC=2 Type=uint16/>'',
                  metadata = None\<rparr>,
       Print ''Writing channel 2/2'',
       TiffWrite \<lparr>data = \<lparr>buffer = [1, 1, 1, 1], dtype = np_uint16, shape = [1, 2]\<rparr>,
                  photometric = ''minisblack'', compression = ''lzw'', tile = (512, 512),
                  dtype_arg = np_uint16, description = None, metadata = None\<rparr>,
       TiffWriterClose ''out.tiff''])"
  by code_simp

subsection \<open>Queries\<close>

lemma get_dtype_from_metadata_uint16:
  assumes "images (docs s ! ome (slicers s ! self)) = im # rest"
  shows "get_dtype_from_metadata s self = Inr np_uint16"
  using assms
  by (simp add: get_dtype_from_metadata_def first_image_def dtype_map_def)

lemma get_dtype_from_metadata_Inr:
  "get_dtype_from_metadata s self = Inr dt \<Longrightarrow> dt = np_uint16"
  by (auto simp add: get_dtype_from_metadata_def dtype_map_def split: sum.splits)

text \<open>
  C6 asks for the element type of the declared pixel type. The accessor reads the store
  and raises nothing when the document has a first image, but the key it looks up is a
  member of the enumeration and the table is keyed by strings: no entry is ever found, and
  the default comes back for every declared type. For the descriptor loaded from
  \<^verbatim>\<open>in.ome.tiff\<close>, which declares \<^verbatim>\<open>uint8\<close>, it returns \<open>np_uint16\<close>.
\<close>

theorem get_dtype_from_metadata_uint8_source:
  "pixel_type (pixels (hd (images (docs example_loaded ! ome (slicers example_loaded ! 0)))))
     = UINT8
   \<and> PixelType_value UINT8 = ''uint8''
   \<and> map_of dtype_map (Str ''uint8'') = Some np_uint8
   \<and> map_of dtype_map (Member UINT8) = None
   \<and> get_dtype_from_metadata example_loaded 0 = Inr np_uint16"
  by code_simp

text \<open>
  C7. Constructing a descriptor from a path whose file carries metadata that parses to a
  document with a first image succeeds, and \<open>get_image_dimensions\<close> on it returns the
  \<open>size_x\<close>, \<open>size_y\<close> and \<open>size_c\<close> of that image.
\<close>

theorem dimensions_after_load:
  assumes "path \<noteq> []"
    and "tiff_ome_metadata L path = Inr md"
    and "from_xml L md = Inr doc"
    and "images doc = im # rest"
  shows "\<exists>self s'. OMESlicer_init L s (Some path) existing x y width height = (Inr self, s')
           \<and> get_image_dimensions s' self =
               Inr (size_x (pixels im), size_y (pixels im), size_c (pixels im))"
  using assms
  by (simp add: OMESlicer_init_def init_from_path_def load_ome_metadata_def log_def Let_def
      get_image_dimensions_def first_image_def nth_append)

theorem dimensions_after_load_witness:
  "\<exists>self s'. OMESlicer_init example_libs empty_store (Some ''in.ome.tiff'') None 0 0 0 0
                = (Inr self, s')
           \<and> get_image_dimensions s' self = Inr (100, 80, 2)"
proof -
  have h1: "''in.ome.tiff'' \<noteq> []" by simp
  have h2: "tiff_ome_metadata example_libs ''in.ome.tiff'' = Inr (Some (example_xml example_doc))"
    by (simp add: example_libs_def)
  have h3: "from_xml example_libs (Some (example_xml example_doc)) = Inr example_doc"
    by (simp add: example_libs_def)
  have h4: "images example_doc
              = \<lparr>pixels = \<lparr>size_x = 100, size_y = 80, size_c = 2, pixel_type = UINT8\<rparr>\<rparr> # []"
    by (simp add: example_doc_def)
  show ?thesis
    using dimensions_after_load [OF h1 h2 h3 h4, of empty_store None 0 0 0 0] by simp
qed

subsection \<open>Saving a descriptor that was never cropped\<close>

text \<open>
  C3. \<open>save\<close> on a descriptor constructed from a path raises the invalid-state
  \<open>ValueError\<close> and returns the store as it was: the trace gains no event, so no file
  was read, and no writer was opened on the output path.
\<close>

theorem save_without_crop:
  assumes "path \<noteq> []"
    and "OMESlicer_init L s (Some path) existing x y width height = (Inr self, s')"
  shows "save L s' self output_path =
           (Inl (ValueError ''This slicer instance has no crop info; nothing to save.''), s')"
  using assms
  by (auto simp add: OMESlicer_init_def init_from_path_def load_ome_metadata_def log_def Let_def
      save_def save_effects_def nth_append split: sum.splits)

theorem save_without_crop_witness:
  "save example_libs example_loaded 0 ''out.tiff'' =
     (Inl (ValueError ''This slicer instance has no crop info; nothing to save.''),
      example_loaded)"
proof -
  have h1: "''in.ome.tiff'' \<noteq> []" by simp
  show ?thesis using save_without_crop [OF h1 example_init] by simp
qed

subsection \<open>The cached page image\<close>

text \<open>
  C10. Once \<open>load_pyvips_image\<close> has returned an image for some page \<open>p\<close>, a call for
  any page \<open>q\<close> returns that same image and leaves the store, and with it the cache and
  the trace, as it is; so does every call after it.
\<close>

theorem load_pyvips_image_cached:
  assumes "self < length (slicers s)"
    and "load_pyvips_image L s self p = (Inr img, s1)"
  shows "load_pyvips_image L s1 self q = (Inr img, s1)"
  using assms
  by (auto simp add: load_pyvips_image_def log_def Let_def split: option.splits sum.splits)

theorem load_pyvips_image_cached_witness:
  "load_pyvips_image example_libs
     (snd (load_pyvips_image example_libs example_loaded 0 1)) 0 0
   = (Inr (1, 100, 80, 1), snd (load_pyvips_image example_libs example_loaded 0 1))"
proof -
  have h1: "0 < length (slicers example_loaded)" by (simp add: example_loaded_eq)
  have h2: "load_pyvips_image example_libs example_loaded 0 1
              = (Inr (1, 100, 80, 1), snd (load_pyvips_image example_libs example_loaded 0 1))"
    by code_simp
  show ?thesis using load_pyvips_image_cached [OF h1 h2, of 0] by simp
qed

subsection \<open>Cropping\<close>

text \<open>What \<open>crop\<close> returns and what it leaves in the store, in one equation.\<close>

lemma crop_eq:
  "crop L s p x y w h =
     (let d = docs s ! ome (slicers s ! p) in
      case images d of
        [] \<Rightarrow> (Inl IndexError, s\<lparr>docs := docs s @ [d, d]\<rparr>)
      | im # rest \<Rightarrow>
          if w < 1 then (Inl ValidationError, s\<lparr>docs := docs s @ [d, d]\<rparr>)
          else if h < 1
          then (Inl ValidationError,
                s\<lparr>docs := docs s @
                   [d, d\<lparr>images := im\<lparr>pixels := (pixels im)\<lparr>size_x := w\<rparr>\<rparr> # rest\<rparr>]\<rparr>)
          else
          (Inr (length (slicers s)),
           s\<lparr>docs := docs s @ [d, d\<lparr>images := im\<lparr>pixels := (pixels im)\<lparr>size_x := w, size_y := h\<rparr>\<rparr> # rest\<rparr>],
             slicers := slicers s @
               [\<lparr>ome_tiff_path = ome_tiff_path (slicers s ! p), pyvips_image = None,
                 ome_metadata = Some (to_xml L (d\<lparr>images := im\<lparr>pixels := (pixels im)\<lparr>size_x := w, size_y := h\<rparr>\<rparr> # rest\<rparr>)),
                 ome = length (docs s), crop_info = Some (x, y, w, h),
                 cropped_dimensions = Some (w, h)\<rparr>]\<rparr>))"
  by (simp add: crop_def OMESlicer_init_def init_from_existing_def update_metadata_for_crop_def
      deepcopy_def Let_def nth_append list_update_append split: list.splits)

lemma crop_ok:
  assumes "images (docs s ! ome (slicers s ! p)) = im # rest" and "1 \<le> w" and "1 \<le> h"
  shows "\<exists>s'. crop L s p x y w h = (Inr (length (slicers s)), s')"
  using assms by (simp add: crop_eq Let_def)

lemma crop_Inr:
  assumes "crop L s p x y w h = (Inr d, s')"
  shows "d = length (slicers s) \<and> 1 \<le> w \<and> 1 \<le> h
       \<and> ome_tiff_path (slicers s' ! d) = ome_tiff_path (slicers s ! p)
       \<and> crop_info (slicers s' ! d) = Some (x, y, w, h)
       \<and> docs s' ! ome (slicers s' ! d) = docs s ! ome (slicers s ! p)
       \<and> (\<exists>im rest. images (docs s ! ome (slicers s ! p)) = im # rest
            \<and> ome_metadata (slicers s' ! d) =
                Some (to_xml L ((docs s ! ome (slicers s ! p))
                  \<lparr>images := im\<lparr>pixels := (pixels im)\<lparr>size_x := w, size_y := h\<rparr>\<rparr> # rest\<rparr>)))"
  using assms
  by (auto simp add: crop_eq Let_def nth_append split: list.splits if_splits)

lemma crop_prefix:
  "crop L s p x y w h = (r, s') \<Longrightarrow>
     prefix (slicers s) (slicers s') \<and> prefix (docs s) (docs s') \<and> trace s' = trace s"
  by (auto simp add: crop_eq Let_def split: list.splits if_splits)

lemma crop_calls_prefix:
  "prefix (slicers s) (slicers (crop_calls L s calls)) \<and>
   prefix (docs s) (docs (crop_calls L s calls))"
proof (induction calls arbitrary: s)
  case Nil
  show ?case by simp
next
  case (Cons c calls)
  obtain t x y w h where c: "c = (t, x, y, w, h)" by (cases c) auto
  obtain r s1 where s1: "crop L s t x y w h = (r, s1)" by (cases "crop L s t x y w h") auto
  from crop_prefix[OF s1] Cons.IH[of s1] show ?case
    using c s1 by (auto intro: prefix_order.trans)
qed

lemma prefix_nth: "prefix xs ys \<Longrightarrow> i < length xs \<Longrightarrow> ys ! i = xs ! i"
  by (auto simp add: prefix_def nth_append)

text \<open>
  C2. Whatever crops are taken afterwards, from the parent or from any other descriptor,
  the parent descriptor keeps every attribute, its document cell keeps its content, and
  \<open>get_image_dimensions\<close> and \<open>get_ome_metadata\<close> return for it what they returned
  before.
\<close>

theorem crop_calls_parent_unchanged:
  assumes "p < length (slicers s)" and "ome (slicers s ! p) < length (docs s)"
  shows "slicers (crop_calls L s calls) ! p = slicers s ! p
       \<and> docs (crop_calls L s calls) ! ome (slicers (crop_calls L s calls) ! p)
           = docs s ! ome (slicers s ! p)
       \<and> get_image_dimensions (crop_calls L s calls) p = get_image_dimensions s p
       \<and> get_ome_metadata (crop_calls L s calls) p = get_ome_metadata s p"
proof -
  let ?s' = "crop_calls L s calls"
  have a: "slicers ?s' ! p = slicers s ! p"
    using crop_calls_prefix[of s L calls] assms(1) by (simp add: prefix_nth)
  have b: "docs ?s' ! ome (slicers s ! p) = docs s ! ome (slicers s ! p)"
    using crop_calls_prefix[of s L calls] assms(2) by (simp add: prefix_nth)
  have c: "get_image_dimensions ?s' p = get_image_dimensions s p"
    unfolding get_image_dimensions_def Let_def a b by (rule refl)
  have d: "get_ome_metadata ?s' p = get_ome_metadata s p"
    unfolding get_ome_metadata_def a by (rule refl)
  show ?thesis using a b c d by simp
qed


theorem crop_calls_parent_unchanged_witness:
  "get_image_dimensions
     (crop_calls example_libs example_loaded [(0, 10, 20, 2, 1), (1, 0, 0, 5, 5), (0, 1, 1, 1, 1)]) 0
     = Inr (100, 80, 2)
   \<and> get_ome_metadata
     (crop_calls example_libs example_loaded [(0, 10, 20, 2, 1), (1, 0, 0, 5, 5), (0, 1, 1, 1, 1)]) 0
     = Some ''<Pixels SizeX=100 SizeY=80 SizeC=2 Type=uint8/>''
   \<and> docs (crop_calls example_libs example_loaded [(0, 10, 20, 2, 1), (1, 0, 0, 5, 5), (0, 1, 1, 1, 1)])
        ! ome (slicers (crop_calls example_libs example_loaded
                 [(0, 10, 20, 2, 1), (1, 0, 0, 5, 5), (0, 1, 1, 1, 1)]) ! 0)
     = example_doc"
proof -
  have h1: "0 < length (slicers example_loaded)" by (simp add: example_loaded_eq)
  have h2: "ome (slicers example_loaded ! 0) < length (docs example_loaded)"
    by (simp add: example_loaded_eq)
  have d: "get_image_dimensions example_loaded 0 = Inr (100, 80, 2)" by code_simp
  have m: "get_ome_metadata example_loaded 0
             = Some ''<Pixels SizeX=100 SizeY=80 SizeC=2 Type=uint8/>''" by code_simp
  have e: "docs example_loaded ! ome (slicers example_loaded ! 0) = example_doc"
    by (simp add: example_loaded_eq)
  define S where
    "S = crop_calls example_libs example_loaded [(0, 10, 20, 2, 1), (1, 0, 0, 5, 5), (0, 1, 1, 1, 1)]"
  note t = crop_calls_parent_unchanged [OF h1 h2, of example_libs
        "[(0, 10, 20, 2, 1), (1, 0, 0, 5, 5), (0, 1, 1, 1, 1)]", folded S_def]
  from t d m e have "get_image_dimensions S 0 = Inr (100, 80, 2)
      \<and> get_ome_metadata S 0 = Some ''<Pixels SizeX=100 SizeY=80 SizeC=2 Type=uint8/>''
      \<and> docs S ! ome (slicers S ! 0) = example_doc"
    by metis
  then show ?thesis unfolding S_def .
qed

text \<open>
  C4, as the code has it. A crop with a width and a height of at least 1, of a descriptor
  whose document has a first image, returns a new descriptor. Its document is a fresh cell
  holding the content of the source document, \<open>size_x\<close> and \<open>size_y\<close> included, and so
  the channel count and the pixel type of the source; the sizes are overwritten in a
  second copy only, whose serialisation becomes the metadata string; the pair (width,
  height) is kept as the cropped dimensions, which \<open>get_image_dimensions\<close> reports with
  the inherited channel count.
\<close>

theorem crop_descriptor:
  assumes "images (docs s ! ome (slicers s ! p)) = im # rest"
    and "1 \<le> width" and "1 \<le> height"
  shows "\<exists>s'. crop L s p x y width height = (Inr (length (slicers s)), s')
           \<and> ome (slicers s' ! length (slicers s)) = length (docs s)
           \<and> docs s' ! length (docs s) = docs s ! ome (slicers s ! p)
           \<and> ome_metadata (slicers s' ! length (slicers s)) =
               Some (to_xml L ((docs s ! ome (slicers s ! p))
                 \<lparr>images := im\<lparr>pixels := (pixels im)\<lparr>size_x := width, size_y := height\<rparr>\<rparr> # rest\<rparr>))
           \<and> cropped_dimensions (slicers s' ! length (slicers s)) = Some (width, height)
           \<and> get_image_dimensions s' (length (slicers s)) = Inr (width, height, size_c (pixels im))
           \<and> get_number_of_channels s' (length (slicers s)) = Inr (size_c (pixels im))
           \<and> get_dtype_from_metadata s' (length (slicers s)) = get_dtype_from_metadata s p"
  using assms
  by (simp add: crop_eq Let_def get_image_dimensions_def get_number_of_channels_def
      get_dtype_from_metadata_def first_image_def nth_append)

theorem crop_descriptor_witness:
  "\<exists>s'. crop example_libs example_loaded 0 10 20 2 1 = (Inr 1, s')
        \<and> docs s' ! 1 = example_doc
        \<and> ome_metadata (slicers s' ! 1) = Some ''<Pixels SizeX=2 SizeY=1 SizeC=2 Type=uint8/>''
        \<and> get_image_dimensions s' 1 = Inr (2, 1, 2)"
proof -
  have h: "images (docs example_loaded ! ome (slicers example_loaded ! 0))
             = \<lparr>pixels = \<lparr>size_x = 100, size_y = 80, size_c = 2, pixel_type = UINT8\<rparr>\<rparr> # []"
    by (simp add: example_loaded_eq example_doc_def)
  have w: "(1::int) \<le> 2" and h': "(1::int) \<le> 1" by simp_all
  have l: "length (slicers example_loaded) = 1" "length (docs example_loaded) = 1"
    "docs example_loaded ! ome (slicers example_loaded ! 0) = example_doc"
    by (simp_all add: example_loaded_eq)
  have x: "to_xml example_libs (example_doc
             \<lparr>images := [\<lparr>pixels = \<lparr>size_x = 2, size_y = 1, size_c = 2, pixel_type = UINT8\<rparr>\<rparr>]\<rparr>)
           = ''<Pixels SizeX=2 SizeY=1 SizeC=2 Type=uint8/>''"
    by code_simp
  show ?thesis
    using crop_descriptor [OF h w h', of example_libs 10 20] l x by auto
qed

text \<open>
  C4 as the specification words it fails: the document held by the descriptor that
  \<^verbatim>\<open>crop(10, 20, 2, 1)\<close> returns in the example world still declares 100 by 80, not
  2 by 1.
\<close>

theorem crop_document_sizes_counterexample:
  "fst (crop example_libs example_loaded 0 10 20 2 1) = Inr 1
   \<and> size_x (pixels (hd (images (docs example_cropped ! ome (slicers example_cropped ! 1))))) = 100
   \<and> size_y (pixels (hd (images (docs example_cropped ! ome (slicers example_cropped ! 1))))) = 80
   \<and> \<not> (size_x (pixels (hd (images (docs example_cropped ! ome (slicers example_cropped ! 1))))) = 2
        \<and> size_y (pixels (hd (images (docs example_cropped ! ome (slicers example_cropped ! 1))))) = 1)"
  by code_simp

text \<open>A width or a height below 1 is refused, and no descriptor is returned.\<close>

lemma crop_refused:
  assumes "width < 1 \<or> height < 1"
  shows "\<exists>e s'. crop L s p x y width height = (Inl e, s')"
  using assms by (auto simp add: crop_eq Let_def split: list.splits)

subsection \<open>Traces of the two loops\<close>

lemma written_pages_append [simp]:
  "written_pages (xs @ ys) = written_pages xs @ written_pages ys"
  by (induction xs rule: written_pages.induct) simp_all

lemma decoded_pages_append [simp]:
  "decoded_pages (xs @ ys) = decoded_pages xs @ decoded_pages ys"
  by (induction xs rule: decoded_pages.induct) simp_all

lemma written_pages_channel_events [simp]:
  "written_pages (channel_events path x y w h n c) = []"
  by (simp add: channel_events_def)

lemma decoded_pages_channel_events [simp]:
  "decoded_pages (channel_events path x y w h n c) = [c]"
  by (simp add: channel_events_def)

lemma decoded_pages_concat_channel_events:
  "decoded_pages (concat (map (channel_events path x y w h n) cs)) = cs"
  by (induction cs) simp_all

lemma extract_channel_events:
  assumes "extract_channel L path x y w h dt n c = (r, evs)"
  shows "(\<forall>e\<in>set evs. \<not> is_output e) \<and> written_pages evs = [] \<and> decoded_pages evs = [c]
       \<and> (\<forall>arr. r = Inr arr \<longrightarrow> evs = channel_events path x y w h n c \<and> dtype arr = dt)"
  using assms
  by (auto simp add: extract_channel_def Let_def channel_events_def np_ndarray_def
      split: sum.splits if_splits)

text \<open>
  Whatever happens to channel \<open>c\<close>, its page of the file at \<open>path\<close> is opened, and if
  that succeeds the cut is asked for at the region given; nothing else is opened or cut.
\<close>

lemma extract_channel_calls:
  assumes "extract_channel L path x y w h dt n c = (r, evs)"
  shows "set evs \<subseteq> set (channel_events path x y w h n c)
       \<and> NewFromFile path c ''sequential'' \<in> set evs
       \<and> (\<forall>img. new_from_file L path c ''sequential'' = Inr img \<longrightarrow> VipsCrop x y w h \<in> set evs)"
  using assms
  by (auto simp add: extract_channel_def Let_def channel_events_def
      split: sum.splits)

lemma extract_channels_calls:
  assumes "extract_channels L path x y w h dt n cs acc = (r, evs)"
  shows "(\<forall>e\<in>set evs. \<exists>c. e \<in> set (channel_events path x y w h n c))
       \<and> (\<forall>c cs'. cs = c # cs' \<longrightarrow>
            NewFromFile path c ''sequential'' \<in> set evs
          \<and> (\<forall>img. new_from_file L path c ''sequential'' = Inr img
                \<longrightarrow> VipsCrop x y w h \<in> set evs))"
  using assms
proof (induction cs arbitrary: acc r evs)
  case Nil
  then show ?case by auto
next
  case (Cons c cs)
  obtain r1 e1 where one: "extract_channel L path x y w h dt n c = (r1, e1)"
    by (cases "extract_channel L path x y w h dt n c") auto
  note ev = extract_channel_calls [OF one]
  show ?case
  proof (cases r1)
    case (Inl err)
    with one Cons.prems have "evs = e1" by auto
    with ev show ?thesis by auto
  next
    case (Inr arr)
    obtain r2 e2 where rest: "extract_channels L path x y w h dt n cs (acc @ [arr]) = (r2, e2)"
      by (cases "extract_channels L path x y w h dt n cs (acc @ [arr])") auto
    from one Inr rest Cons.prems have res: "evs = e1 @ e2" by auto
    from Cons.IH [OF rest]
    have ih: "\<forall>e\<in>set e2. \<exists>c. e \<in> set (channel_events path x y w h n c)" by blast
    show ?thesis
      using ih ev unfolding res by auto
  qed
qed

lemma extract_channels_events:
  assumes "extract_channels L path x y w h dt n cs acc = (r, evs)"
  shows "(\<forall>e\<in>set evs. \<not> is_output e) \<and> written_pages evs = []
       \<and> prefix (decoded_pages evs) cs
       \<and> (\<forall>arrays. r = Inr arrays \<longrightarrow>
            evs = concat (map (channel_events path x y w h n) cs)
          \<and> arrays = acc @ map (\<lambda>c. projr (fst (extract_channel L path x y w h dt n c))) cs
          \<and> (\<forall>c\<in>set cs. \<not> isl (fst (extract_channel L path x y w h dt n c))))"
  using assms
proof (induction cs arbitrary: acc r evs)
  case Nil
  then show ?case by auto
next
  case (Cons c cs)
  obtain r1 e1 where one: "extract_channel L path x y w h dt n c = (r1, e1)"
    by (cases "extract_channel L path x y w h dt n c") auto
  note ev = extract_channel_events [OF one]
  show ?case
  proof (cases r1)
    case (Inl err)
    with one Cons.prems have "r = Inl err" "evs = e1" by auto
    with ev show ?thesis by auto
  next
    case (Inr arr)
    obtain r2 e2 where rest: "extract_channels L path x y w h dt n cs (acc @ [arr]) = (r2, e2)"
      by (cases "extract_channels L path x y w h dt n cs (acc @ [arr])") auto
    from one Inr rest Cons.prems have res: "r = r2" "evs = e1 @ e2" by auto
    note ih = Cons.IH [OF rest]
    from ev Inr have e1: "e1 = channel_events path x y w h n c" by simp
    show ?thesis
      using ih ev one Inr unfolding res e1 by auto
  qed
qed

lemma getitem_nth: "0 \<le> c \<Longrightarrow> c < int (length xs) \<Longrightarrow> getitem xs c = Inr (xs ! nat c)"
  by (simp add: getitem_def)

lemma range_nth: "i < nat n \<Longrightarrow> range n ! i = int i"
  by (simp add: range_def)

lemma length_range [simp]: "length (range n) = nat n"
  by (simp add: range_def)

lemma set_range: "c \<in> set (range n) \<Longrightarrow> 0 \<le> c \<and> c < n"
  by (auto simp add: range_def)

lemma write_channel_events:
  assumes "write_channel L md arrays n c = (r, evs)"
  shows "(\<forall>e\<in>set evs. \<not> is_extraction e)
       \<and> (\<forall>call\<in>set (written_pages evs). dtype_arg call = np_uint16)"
  using assms
  by (auto simp add: write_channel_def Let_def write_args_def split: sum.splits option.splits)

lemma write_channels_events:
  assumes "write_channels L md arrays n cs = (r, evs)"
  shows "(\<forall>e\<in>set evs. \<not> is_extraction e)
       \<and> (\<forall>call\<in>set (written_pages evs). dtype_arg call = np_uint16)"
  using assms
proof (induction cs arbitrary: r evs)
  case Nil
  then show ?case by auto
next
  case (Cons c cs)
  obtain r1 e1 where one: "write_channel L md arrays n c = (r1, e1)"
    by (cases "write_channel L md arrays n c") auto
  obtain r2 e2 where rest: "write_channels L md arrays n cs = (r2, e2)"
    by (cases "write_channels L md arrays n cs") auto
  from one rest Cons.prems have "evs = e1 \<or> evs = e1 @ e2"
    by (auto split: sum.splits)
  with write_channel_events [OF one] Cons.IH [OF rest] show ?case by auto
qed

lemma write_channel_page:
  assumes "0 \<le> c" and "c < int (length arrays)"
    and "write_channel L md arrays n c = (r, evs)"
  shows "written_pages evs = [write_args md (arrays ! nat c) c]
       \<and> (r = Inr () \<longleftrightarrow> tiff_write L (write_args md (arrays ! nat c) c) = None)"
  using assms
  by (auto simp add: write_channel_def Let_def getitem_nth split: option.splits)

lemma write_channels_pages:
  assumes "\<forall>c\<in>set cs. 0 \<le> c \<and> c < int (length arrays)"
    and "write_channels L md arrays n cs = (r, evs)"
  shows "\<exists>k\<le>length cs.
           written_pages evs = map (\<lambda>c. write_args md (arrays ! nat c) c) (take k cs)
         \<and> (r = Inr () \<longrightarrow> k = length cs)"
  using assms
proof (induction cs arbitrary: r evs)
  case Nil
  then show ?case by auto
next
  case (Cons c cs)
  obtain r1 e1 where one: "write_channel L md arrays n c = (r1, e1)"
    by (cases "write_channel L md arrays n c") auto
  from Cons.prems(1) have c: "0 \<le> c" "c < int (length arrays)" by auto
  note pg = write_channel_page [OF c one]
  show ?case
  proof (cases r1)
    case (Inl err)
    with one Cons.prems(2) have "r = Inl err" "evs = e1" by auto
    with pg show ?thesis by (intro exI [of _ 1]) auto
  next
    case (Inr u)
    obtain r2 e2 where rest: "write_channels L md arrays n cs = (r2, e2)"
      by (cases "write_channels L md arrays n cs") auto
    from one Inr rest Cons.prems(2) have res: "r = r2" "evs = e1 @ e2" by auto
    from Cons.prems(1) have "\<forall>c\<in>set cs. 0 \<le> c \<and> c < int (length arrays)" by auto
    from Cons.IH [OF this rest] obtain k where k: "k \<le> length cs"
      "written_pages e2 = map (\<lambda>c. write_args md (arrays ! nat c) c) (take k cs)"
      "r2 = Inr () \<longrightarrow> k = length cs" by auto
    show ?thesis
      using k pg unfolding res by (intro exI [of _ "Suc k"]) auto
  qed
qed

lemma write_channels_ok:
  assumes "\<forall>c\<in>set cs. 0 \<le> c \<and> c < int (length arrays)"
    and "\<forall>call. tiff_write L call = None"
  shows "fst (write_channels L md arrays n cs) = Inr ()"
  using assms
  by (induction cs)
     (auto simp add: write_channel_def Let_def getitem_nth split: prod.splits sum.splits)

lemma extract_channels_ok:
  assumes "\<forall>c\<in>set cs. \<not> isl (fst (extract_channel L path x y w h dt n c))"
  shows "\<exists>arrays. fst (extract_channels L path x y w h dt n cs acc) = Inr arrays"
  using assms
proof (induction cs arbitrary: acc)
  case Nil
  then show ?case by simp
next
  case (Cons c cs)
  obtain r1 e1 where one: "extract_channel L path x y w h dt n c = (r1, e1)"
    by (cases "extract_channel L path x y w h dt n c") auto
  with Cons.prems obtain arr where r1: "r1 = Inr arr" by (cases r1) auto
  from Cons.prems have "\<forall>c\<in>set cs. \<not> isl (fst (extract_channel L path x y w h dt n c))"
    by simp
  from Cons.IH [OF this, of "acc @ [arr]"] show ?case
    using one r1 by (auto split: prod.splits)
qed

lemma getitem_in_set: "getitem xs c = Inr a \<Longrightarrow> a \<in> set xs"
  by (auto simp add: getitem_def split: if_splits)

lemma write_channel_data:
  assumes "write_channel L md arrays n c = (r, evs)"
  shows "\<forall>call\<in>set (written_pages evs). dtype_arg call = np_uint16 \<and> data call \<in> set arrays"
  using assms
  by (auto simp add: write_channel_def Let_def write_args_def getitem_in_set
      split: sum.splits option.splits)

lemma write_channels_data:
  assumes "write_channels L md arrays n cs = (r, evs)"
  shows "\<forall>call\<in>set (written_pages evs). dtype_arg call = np_uint16 \<and> data call \<in> set arrays"
  using assms
proof (induction cs arbitrary: r evs)
  case Nil
  then show ?case by auto
next
  case (Cons c cs)
  obtain r1 e1 where one: "write_channel L md arrays n c = (r1, e1)"
    by (cases "write_channel L md arrays n c") auto
  obtain r2 e2 where rest: "write_channels L md arrays n cs = (r2, e2)"
    by (cases "write_channels L md arrays n cs") auto
  from one rest Cons.prems have "evs = e1 \<or> evs = e1 @ e2"
    by (auto split: sum.splits)
  with write_channel_data [OF one] Cons.IH [OF rest] show ?case by auto
qed

lemma extract_channels_dtype:
  assumes "extract_channels L path x y w h dt n cs acc = (Inr arrays, evs)"
    and "\<forall>a\<in>set acc. dtype a = dt"
  shows "\<forall>a\<in>set arrays. dtype a = dt"
  using assms
proof (induction cs arbitrary: acc evs)
  case Nil
  then show ?case by auto
next
  case (Cons c cs)
  obtain r1 e1 where one: "extract_channel L path x y w h dt n c = (r1, e1)"
    by (cases "extract_channel L path x y w h dt n c") auto
  with Cons.prems(1) obtain arr where r1: "r1 = Inr arr" by (cases r1) auto
  from extract_channel_events [OF one] r1 have "dtype arr = dt" by simp
  with Cons.prems(2) have acc: "\<forall>a\<in>set (acc @ [arr]). dtype a = dt" by simp
  obtain e2 where rest: "extract_channels L path x y w h dt n cs (acc @ [arr]) = (Inr arrays, e2)"
    using Cons.prems(1) one r1 by (auto split: prod.splits)
  from Cons.IH [OF rest acc] show ?case .
qed

lemma two_elements:
  assumes "length xs = 2"
  shows "xs = [xs ! 0, xs ! 1]"
proof -
  from assms obtain a b where "xs = [a, b]"
    by (auto simp add: length_Suc_conv numeral_2_eq_2)
  then show ?thesis by simp
qed

subsection \<open>Saving a cropped descriptor\<close>

text \<open>
  C5. Every page \<open>save\<close> hands to the writer holds a buffer tagged \<open>np_uint16\<close>, and is
  written with the element-type argument \<open>np_uint16\<close>, whatever type the metadata
  declares: the accessor resolves every declared type to \<open>np_uint16\<close>, and the argument
  is fixed.
\<close>

theorem save_buffers_uint16:
  "\<forall>call\<in>set (written_pages (snd (save_effects L s self output_path))).
      dtype (data call) = np_uint16 \<and> dtype_arg call = np_uint16"
proof (cases "crop_info (slicers s ! self)")
  case None
  then show ?thesis by (simp add: save_effects_def)
next
  case (Some region)
  obtain x y w h where region: "region = (x, y, w, h)" by (cases region) auto
  show ?thesis
  proof (cases "get_number_of_channels s self")
    case (Inl e)
    with Some region show ?thesis by (simp add: save_effects_def)
  next
    case n: (Inr n)
    show ?thesis
    proof (cases "get_dtype_from_metadata s self")
      case (Inl e)
      with Some region n show ?thesis by (simp add: save_effects_def)
    next
      case dt: (Inr dt)
      from get_dtype_from_metadata_Inr [OF dt] have dt16: "dt = np_uint16" .
      obtain r1 e1 where ex: "extract_channels L (ome_tiff_path (slicers s ! self)) x y w h dt n
                                (range n) [] = (r1, e1)"
        by (cases "extract_channels L (ome_tiff_path (slicers s ! self)) x y w h dt n (range n) []")
           auto
      from extract_channels_events [OF ex] have e1: "written_pages e1 = []" by simp
      show ?thesis
      proof (cases r1)
        case (Inl e)
        with Some region n dt ex e1 show ?thesis by (simp add: save_effects_def)
      next
        case arrays: (Inr arrays)
        obtain r2 e2 where wr: "write_channels L (ome_metadata (slicers s ! self)) arrays n
                                  (range n) = (r2, e2)"
          by (cases "write_channels L (ome_metadata (slicers s ! self)) arrays n (range n)") auto
        from extract_channels_dtype [OF ex [unfolded arrays]]
        have tags: "\<forall>a\<in>set arrays. dtype a = dt" by simp
        from write_channels_data [OF wr] tags dt16
        have e2: "\<forall>call\<in>set (written_pages e2).
                    dtype (data call) = np_uint16 \<and> dtype_arg call = np_uint16" by auto
        show ?thesis
          using Some region n dt ex e1 arrays wr e2
          by (cases "tiff_writer_open L output_path True") (simp_all add: save_effects_def)
      qed
    qed
  qed
qed

theorem save_buffers_uint16_witness:
  "fst (save_effects example_libs example_cropped16 1 ''out.tiff'') = Inr ()
   \<and> map (\<lambda>call. dtype (data call))
       (written_pages (snd (save_effects example_libs example_cropped16 1 ''out.tiff'')))
     = [np_uint16, np_uint16]
   \<and> map dtype_arg
       (written_pages (snd (save_effects example_libs example_cropped16 1 ''out.tiff'')))
     = [np_uint16, np_uint16]"
proof -
  define W where
    "W = written_pages (snd (save_effects example_libs example_cropped16 1 ''out.tiff''))"
  have len: "length W = 2" unfolding W_def example_save16 by simp
  have ok: "fst (save_effects example_libs example_cropped16 1 ''out.tiff'') = Inr ()"
    unfolding example_save16 by simp
  note t = save_buffers_uint16 [of example_libs example_cropped16 1 "''out.tiff''", folded W_def]
  from two_elements [OF len] have mem: "W ! 0 \<in> set W" "W ! 1 \<in> set W"
    by (metis list.set_intros(1), metis list.set_intros(1,2))
  from t mem(1) have a: "dtype (data (W ! 0)) = np_uint16 \<and> dtype_arg (W ! 0) = np_uint16"
    by blast
  from t mem(2) have b: "dtype (data (W ! 1)) = np_uint16 \<and> dtype_arg (W ! 1) = np_uint16"
    by blast
  from a b have "map (\<lambda>call. dtype (data call)) [W ! 0, W ! 1] = [np_uint16, np_uint16]
     \<and> map dtype_arg [W ! 0, W ! 1] = [np_uint16, np_uint16]"
    by simp
  then have "map (\<lambda>call. dtype (data call)) W = [np_uint16, np_uint16]
     \<and> map dtype_arg W = [np_uint16, np_uint16]"
    unfolding two_elements [OF len, symmetric] .
  with ok show ?thesis unfolding W_def by blast
qed

text \<open>
  C8. The events of a \<open>save\<close> on a cropped descriptor split into an extraction part
  with no writer event and an output part with no extraction event. The pages decoded are
  an initial stretch of the channel indices in order. If any page is written, the
  extraction part is the complete extraction of every channel in index order; the pages
  written are at most one per channel, the page at position \<open>i\<close> holds the array extracted
  for channel \<open>i\<close>, and a \<open>save\<close> that returns has written them all.
\<close>

theorem save_phases:
  assumes "crop_info (slicers s ! self) = Some (x, y, width, height)"
    and "get_number_of_channels s self = Inr n"
    and "get_dtype_from_metadata s self = Inr dt"
    and "save L s self output_path = (r, s')"
  shows "\<exists>pre post. trace s' = trace s @ pre @ post
       \<and> (\<forall>e\<in>set pre. \<not> is_output e)
       \<and> (\<forall>e\<in>set post. \<not> is_extraction e)
       \<and> prefix (decoded_pages pre) (range n)
       \<and> (written_pages post \<noteq> [] \<longrightarrow>
            pre = concat (map (channel_events (ome_tiff_path (slicers s ! self))
                                 x y width height n) (range n)))
       \<and> length (written_pages post) \<le> nat n
       \<and> (\<forall>i<length (written_pages post).
            fst (extract_channel L (ome_tiff_path (slicers s ! self)) x y width height dt n (int i))
              = Inr (data (written_pages post ! i)))
       \<and> (r = Inr () \<longrightarrow> length (written_pages post) = nat n)"
proof -
  let ?path = "ome_tiff_path (slicers s ! self)"
  let ?f = "\<lambda>c. projr (fst (extract_channel L ?path x y width height dt n c))"
  obtain r1 e1 where ex: "extract_channels L ?path x y width height dt n (range n) [] = (r1, e1)"
    by (cases "extract_channels L ?path x y width height dt n (range n) []") auto
  from extract_channels_events [OF ex]
  have e1: "\<forall>e\<in>set e1. \<not> is_output e" "prefix (decoded_pages e1) (range n)"
    and ok: "\<And>arrays. r1 = Inr arrays \<Longrightarrow>
               e1 = concat (map (channel_events ?path x y width height n) (range n))
             \<and> arrays = map ?f (range n)
             \<and> (\<forall>c\<in>set (range n). \<not> isl (fst (extract_channel L ?path x y width height dt n c)))"
    by auto
  show ?thesis
  proof (cases r1)
    case (Inl err)
    with assms ex have "r = Inl err" "trace s' = trace s @ e1 @ []"
      by (auto simp add: save_def save_effects_def)
    with e1 show ?thesis
      by - (rule exI [of _ e1], rule exI [of _ "[]"], simp)
  next
    case (Inr arrays)
    note a = ok [OF Inr]
    from a have len: "length arrays = nat n" by simp
    show ?thesis
    proof (cases "tiff_writer_open L output_path True")
      case (Some err)
      with assms ex Inr have "r = Inl err"
        "trace s' = trace s @ e1 @ [TiffWriterOpen output_path True]"
        by (auto simp add: save_def save_effects_def)
      with e1 show ?thesis
        by - (rule exI [of _ e1], rule exI [of _ "[TiffWriterOpen output_path True]"], simp)
    next
      case None
      obtain r2 e2 where wr: "write_channels L (ome_metadata (slicers s ! self)) arrays n
                                (range n) = (r2, e2)"
        by (cases "write_channels L (ome_metadata (slicers s ! self)) arrays n (range n)") auto
      let ?post = "[TiffWriterOpen output_path True] @ e2 @ [TiffWriterClose output_path]"
      from assms ex Inr None wr have res: "r = r2" "trace s' = trace s @ e1 @ ?post"
        by (auto simp add: save_def save_effects_def)
      from write_channels_events [OF wr] have noex: "\<forall>e\<in>set ?post. \<not> is_extraction e"
        by simp
      have valid: "\<forall>c\<in>set (range n). 0 \<le> c \<and> c < int (length arrays)"
        using len by (auto dest: set_range)
      from write_channels_pages [OF valid wr] obtain k where k: "k \<le> nat n"
        "written_pages e2 =
           map (\<lambda>c. write_args (ome_metadata (slicers s ! self)) (arrays ! nat c) c)
             (take k (range n))"
        "r2 = Inr () \<longrightarrow> k = nat n" by auto
      have wp: "written_pages ?post = written_pages e2" by simp
      have lenwp: "length (written_pages e2) = k" using k(1,2) by simp
      have pages: "\<forall>i<length (written_pages e2).
            fst (extract_channel L ?path x y width height dt n (int i))
              = Inr (data (written_pages e2 ! i))"
      proof (intro allI impI)
        fix i assume "i < length (written_pages e2)"
        with lenwp k(1) have i: "i < k" "i < nat n" by auto
        then have "written_pages e2 ! i
                     = write_args (ome_metadata (slicers s ! self)) (arrays ! i) (int i)"
          using k(2) by (simp add: range_nth)
        then have d: "data (written_pages e2 ! i) = arrays ! i" by (simp add: write_args_def)
        from i have mem: "int i \<in> set (range n)" by (auto simp add: range_def)
        from a i have "arrays ! i = ?f (int i)" by (simp add: range_nth)
        moreover from a mem
        have "\<not> isl (fst (extract_channel L ?path x y width height dt n (int i)))" by blast
        ultimately show "fst (extract_channel L ?path x y width height dt n (int i))
              = Inr (data (written_pages e2 ! i))"
          using d by (cases "fst (extract_channel L ?path x y width height dt n (int i))") auto
      qed
      have "trace s' = trace s @ e1 @ ?post
          \<and> (\<forall>e\<in>set e1. \<not> is_output e)
          \<and> (\<forall>e\<in>set ?post. \<not> is_extraction e)
          \<and> prefix (decoded_pages e1) (range n)
          \<and> (written_pages ?post \<noteq> [] \<longrightarrow>
                e1 = concat (map (channel_events ?path x y width height n) (range n)))
          \<and> length (written_pages ?post) \<le> nat n
          \<and> (\<forall>i<length (written_pages ?post).
                fst (extract_channel L ?path x y width height dt n (int i))
                  = Inr (data (written_pages ?post ! i)))
          \<and> (r = Inr () \<longrightarrow> length (written_pages ?post) = nat n)"
        unfolding wp using res e1 noex a lenwp k pages by blast
      then show ?thesis
        by - (rule exI [of _ e1], rule exI [of _ ?post])
    qed
  qed
qed

theorem save_phases_witness:
  "\<exists>pre post.
      trace (snd (save example_libs example_cropped16 1 ''out.tiff''))
        = trace example_cropped16 @ pre @ post
    \<and> (\<forall>e\<in>set pre. \<not> is_output e)
    \<and> (\<forall>e\<in>set post. \<not> is_extraction e)
    \<and> pre = concat (map (channel_events ''in16.ome.tiff'' 10 20 2 1 2) (range 2))
    \<and> length (written_pages post) = 2
    \<and> (\<forall>i<length (written_pages post).
          fst (extract_channel example_libs ''in16.ome.tiff'' 10 20 2 1 np_uint16 2 (int i))
            = Inr (data (written_pages post ! i)))"
proof -
  have h1: "crop_info (slicers example_cropped16 ! 1) = Some (10, 20, 2, 1)"
    by (simp add: example_cropped16_eq)
  have h2: "get_number_of_channels example_cropped16 1 = Inr 2" by code_simp
  have h3: "get_dtype_from_metadata example_cropped16 1 = Inr np_uint16" by code_simp
  have h4: "save example_libs example_cropped16 1 ''out.tiff''
              = (Inr (), snd (save example_libs example_cropped16 1 ''out.tiff''))"
    by code_simp
  have p: "ome_tiff_path (slicers example_cropped16 ! 1) = ''in16.ome.tiff''"
    by (simp add: example_cropped16_eq)
  from save_phases [OF h1 h2 h3 h4, unfolded p] obtain pre post where
    a: "trace (snd (save example_libs example_cropped16 1 ''out.tiff''))
          = trace example_cropped16 @ pre @ post"
      "\<forall>e\<in>set pre. \<not> is_output e" "\<forall>e\<in>set post. \<not> is_extraction e"
      "written_pages post \<noteq> [] \<longrightarrow>
         pre = concat (map (channel_events ''in16.ome.tiff'' 10 20 2 1 2) (range 2))"
      "\<forall>i<length (written_pages post).
          fst (extract_channel example_libs ''in16.ome.tiff'' 10 20 2 1 np_uint16 2 (int i))
            = Inr (data (written_pages post ! i))"
      "length (written_pages post) = nat 2"
    by blast
  from a(6) have "written_pages post \<noteq> []" by auto
  with a show ?thesis by auto
qed

subsection \<open>Chains of crops\<close>

lemma save_effects_cong:
  assumes "crop_info (slicers s ! a) = crop_info (slicers t ! b)"
    and "ome_tiff_path (slicers s ! a) = ome_tiff_path (slicers t ! b)"
    and "ome_metadata (slicers s ! a) = ome_metadata (slicers t ! b)"
    and "docs s ! ome (slicers s ! a) = docs t ! ome (slicers t ! b)"
  shows "save_effects L s a output_path = save_effects L t b output_path"
  unfolding save_effects_def get_number_of_channels_def get_dtype_from_metadata_def Let_def assms
  by (rule refl)

lemma crop_chain_snoc:
  "crop_chain L s d (regions @ [(x, y, w, h)]) =
     (case crop_chain L s d regions of
        (Inl e, s1) \<Rightarrow> (Inl e, s1)
      | (Inr b, s1) \<Rightarrow> crop L s1 b x y w h)"
proof (induction regions arbitrary: s d)
  case Nil
  show ?case by (cases "crop L s d x y w h") (auto split: sum.splits)
next
  case (Cons r regions)
  obtain x' y' w' h' where r: "r = (x', y', w', h')" by (cases r) auto
  show ?case unfolding r using Cons.IH by (auto split: prod.splits sum.splits)
qed

lemma crop_chain_keeps:
  assumes "crop_chain L s a regions = (Inr d, s')"
  shows "ome_tiff_path (slicers s' ! d) = ome_tiff_path (slicers s ! a)
       \<and> docs s' ! ome (slicers s' ! d) = docs s ! ome (slicers s ! a)"
  using assms
proof (induction regions arbitrary: s a)
  case Nil
  then show ?case by simp
next
  case (Cons r regions)
  obtain x y w h where r: "r = (x, y, w, h)" by (cases r) auto
  obtain r1 s1 where one: "crop L s a x y w h = (r1, s1)" by (cases "crop L s a x y w h") auto
  with Cons.prems r obtain b where b: "r1 = Inr b" by (cases r1) auto
  from Cons.prems r one b have "crop_chain L s1 b regions = (Inr d, s')" by simp
  note ih = Cons.IH [OF this]
  note c = crop_Inr [OF one [unfolded b]]
  have "ome_tiff_path (slicers s' ! d) = ome_tiff_path (slicers s1 ! b)" using ih by blast
  also have "\<dots> = ome_tiff_path (slicers s ! a)" using c by blast
  finally have p: "ome_tiff_path (slicers s' ! d) = ome_tiff_path (slicers s ! a)" .
  have "docs s' ! ome (slicers s' ! d) = docs s1 ! ome (slicers s1 ! b)" using ih by blast
  also have "\<dots> = docs s ! ome (slicers s ! a)" using c by blast
  finally show ?case using p by blast
qed

lemma range_Cons: "0 < n \<Longrightarrow> range n = 0 # map int [1..<nat n]"
  using upt_conv_Cons [of 0 "nat n"] by (simp add: range_def)

text \<open>
  What \<open>save\<close> asks of the image library: only pages of the stored path are opened, only
  the stored region is cut; with a channel to extract, page 0 of that path is opened and,
  once open, cut at that region; and a \<open>save\<close> that returns has opened and cut every
  channel so.
\<close>

lemma save_effects_calls:
  assumes "crop_info (slicers s ! self) = Some (x, y, w, h)"
    and "get_number_of_channels s self = Inr n"
    and "save_effects L s self output_path = (r, evs)"
  shows "(\<forall>p c acc. NewFromFile p c acc \<in> set evs \<longrightarrow> p = ome_tiff_path (slicers s ! self))
       \<and> (\<forall>x' y' w' h'. VipsCrop x' y' w' h' \<in> set evs \<longrightarrow> (x', y', w', h') = (x, y, w, h))
       \<and> (0 < n \<longrightarrow>
            NewFromFile (ome_tiff_path (slicers s ! self)) 0 ''sequential'' \<in> set evs
          \<and> (\<forall>img. new_from_file L (ome_tiff_path (slicers s ! self)) 0 ''sequential'' = Inr img
                \<longrightarrow> VipsCrop x y w h \<in> set evs))
       \<and> (r = Inr () \<longrightarrow>
            (\<exists>post. evs = concat (map (channel_events (ome_tiff_path (slicers s ! self))
                                         x y w h n) (range n)) @ post
                  \<and> (\<forall>e\<in>set post. \<not> is_extraction e)))"
proof -
  let ?path = "ome_tiff_path (slicers s ! self)"
  from assms(2) have dt: "get_dtype_from_metadata s self = Inr np_uint16"
    by (auto simp add: get_number_of_channels_def get_dtype_from_metadata_def dtype_map_def
        split: sum.splits)
  obtain r1 e1 where ex: "extract_channels L ?path x y w h np_uint16 n (range n) [] = (r1, e1)"
    by (cases "extract_channels L ?path x y w h np_uint16 n (range n) []") auto
  note calls1 = extract_channels_calls [OF ex, THEN conjunct1]
  note calls2 = extract_channels_calls [OF ex, THEN conjunct2]
  note shape = extract_channels_events [OF ex]
  have "\<exists>post. evs = e1 @ post \<and> (\<forall>e\<in>set post. \<not> is_extraction e)
            \<and> (r = Inr () \<longrightarrow> \<not> isl r1)"
  proof (cases r1)
    case (Inl err)
    with assms dt ex have "evs = e1 @ []" "r = Inl err" by (auto simp add: save_effects_def)
    then show ?thesis by - (rule exI [of _ "[]"], simp)
  next
    case (Inr arrays)
    show ?thesis
    proof (cases "tiff_writer_open L output_path True")
      case (Some err)
      with assms dt ex Inr have "evs = e1 @ [TiffWriterOpen output_path True]"
        by (auto simp add: save_effects_def)
      then show ?thesis using Inr
        by - (rule exI [of _ "[TiffWriterOpen output_path True]"], simp)
    next
      case None
      obtain r2 e2 where wr: "write_channels L (ome_metadata (slicers s ! self)) arrays n
                                (range n) = (r2, e2)"
        by (cases "write_channels L (ome_metadata (slicers s ! self)) arrays n (range n)") auto
      from assms dt ex Inr None wr
      have "evs = e1 @ ([TiffWriterOpen output_path True] @ e2 @ [TiffWriterClose output_path])"
        by (auto simp add: save_effects_def)
      moreover from write_channels_events [OF wr]
      have "\<forall>e\<in>set ([TiffWriterOpen output_path True] @ e2 @ [TiffWriterClose output_path]).
              \<not> is_extraction e" by simp
      moreover have "\<not> isl r1" using Inr by simp
      ultimately show ?thesis
        by - (rule exI [of _ "[TiffWriterOpen output_path True] @ e2
                              @ [TiffWriterClose output_path]"], blast)
    qed
  qed
  then obtain post where post: "evs = e1 @ post" "\<forall>e\<in>set post. \<not> is_extraction e"
    "r = Inr () \<longrightarrow> \<not> isl r1" by blast
  have a: "\<forall>p c acc. NewFromFile p c acc \<in> set evs \<longrightarrow> p = ?path"
  proof (intro allI impI)
    fix p c acc assume m: "NewFromFile p c acc \<in> set evs"
    with post(2) have "NewFromFile p c acc \<in> set e1" unfolding post(1) by auto
    with calls1 obtain c' where "NewFromFile p c acc \<in> set (channel_events ?path x y w h n c')"
      by blast
    then show "p = ?path" by (simp add: channel_events_def)
  qed
  have b: "\<forall>x' y' w' h'. VipsCrop x' y' w' h' \<in> set evs \<longrightarrow> (x', y', w', h') = (x, y, w, h)"
  proof (intro allI impI)
    fix x' y' w' h' assume m: "VipsCrop x' y' w' h' \<in> set evs"
    with post(2) have "VipsCrop x' y' w' h' \<in> set e1" unfolding post(1) by auto
    with calls1 obtain c' where
      "VipsCrop x' y' w' h' \<in> set (channel_events ?path x y w h n c')" by blast
    then show "(x', y', w', h') = (x, y, w, h)" by (simp add: channel_events_def)
  qed
  have c: "0 < n \<longrightarrow>
            NewFromFile ?path 0 ''sequential'' \<in> set evs
          \<and> (\<forall>img. new_from_file L ?path 0 ''sequential'' = Inr img
                \<longrightarrow> VipsCrop x y w h \<in> set evs)"
  proof
    assume "0 < n"
    then have "range n = 0 # map int [1..<nat n]" by (rule range_Cons)
    with calls2 have "NewFromFile ?path 0 ''sequential'' \<in> set e1
          \<and> (\<forall>img. new_from_file L ?path 0 ''sequential'' = Inr img
                \<longrightarrow> VipsCrop x y w h \<in> set e1)" by blast
    then show "NewFromFile ?path 0 ''sequential'' \<in> set evs
          \<and> (\<forall>img. new_from_file L ?path 0 ''sequential'' = Inr img
                \<longrightarrow> VipsCrop x y w h \<in> set evs)"
      unfolding post(1) by simp
  qed
  have d: "r = Inr () \<longrightarrow>
            (\<exists>post. evs = concat (map (channel_events ?path x y w h n) (range n)) @ post
                  \<and> (\<forall>e\<in>set post. \<not> is_extraction e))"
  proof
    assume "r = Inr ()"
    with post(3) obtain arrays where "r1 = Inr arrays" by (cases r1) auto
    with shape [THEN conjunct2, THEN conjunct2, THEN conjunct2]
    have "e1 = concat (map (channel_events ?path x y w h n) (range n))" by blast
    with post(1,2) show "\<exists>post. evs = concat (map (channel_events ?path x y w h n) (range n)) @ post
                  \<and> (\<forall>e\<in>set post. \<not> is_extraction e)" by blast
  qed
  show ?thesis by (rule conjI [OF a conjI [OF b conjI [OF c d]]])
qed

text \<open>
  C9. The descriptor at the end of a chain of crops stores the path of the descriptor the
  chain started from and the region of the last crop alone. Saving it opens no file but
  the one at that path and cuts no region but that last one, with the coordinates as they
  were given, none added from an earlier crop of the chain; with a channel to extract it
  does open page 0 of that path and, once open, cuts it there; and a save that returns has
  opened and cut every channel so. Its result and events are those of saving a single crop
  of the starting descriptor with that region.
\<close>

theorem crop_chain_last_region:
  assumes "crop_chain L s a (regions @ [(x, y, width, height)]) = (Inr d, s')"
  shows "ome_tiff_path (slicers s' ! d) = ome_tiff_path (slicers s ! a)
       \<and> crop_info (slicers s' ! d) = Some (x, y, width, height)
       \<and> (\<forall>p c acc. NewFromFile p c acc \<in> set (snd (save_effects L s' d output_path))
             \<longrightarrow> p = ome_tiff_path (slicers s ! a))
       \<and> (\<forall>x' y' w' h'. VipsCrop x' y' w' h' \<in> set (snd (save_effects L s' d output_path))
             \<longrightarrow> (x', y', w', h') = (x, y, width, height))
       \<and> (\<exists>n. get_number_of_channels s a = Inr n
            \<and> (0 < n \<longrightarrow>
                 NewFromFile (ome_tiff_path (slicers s ! a)) 0 ''sequential''
                   \<in> set (snd (save_effects L s' d output_path))
               \<and> (\<forall>img. new_from_file L (ome_tiff_path (slicers s ! a)) 0 ''sequential'' = Inr img
                     \<longrightarrow> VipsCrop x y width height
                           \<in> set (snd (save_effects L s' d output_path))))
            \<and> (fst (save_effects L s' d output_path) = Inr () \<longrightarrow>
                 (\<exists>post. snd (save_effects L s' d output_path)
                           = concat (map (channel_events (ome_tiff_path (slicers s ! a))
                                            x y width height n) (range n)) @ post
                       \<and> (\<forall>e\<in>set post. \<not> is_extraction e))))
       \<and> (\<exists>d1 s1. crop L s a x y width height = (Inr d1, s1)
            \<and> save_effects L s' d output_path = save_effects L s1 d1 output_path)"
proof -
  obtain r0 s0 where pre: "crop_chain L s a regions = (r0, s0)"
    by (cases "crop_chain L s a regions") auto
  with assms obtain b where b: "r0 = Inr b"
    by (cases r0) (auto simp add: crop_chain_snoc)
  from assms pre b have last: "crop L s0 b x y width height = (Inr d, s')"
    by (simp add: crop_chain_snoc)
  note keep = crop_chain_keeps [OF pre [unfolded b]]
  note lst = crop_Inr [OF last]
  from lst keep obtain im rest where
    im: "images (docs s ! ome (slicers s ! a)) = im # rest" by auto
  from lst have pos: "1 \<le> width" "1 \<le> height" by auto
  from crop_ok [OF im pos, of L x y] obtain s1 where
    direct: "crop L s a x y width height = (Inr (length (slicers s)), s1)" by blast
  note dir = crop_Inr [OF direct]
  have same: "save_effects L s' d output_path = save_effects L s1 (length (slicers s)) output_path"
    by (rule save_effects_cong) (use lst keep dir in auto)
  have path: "ome_tiff_path (slicers s' ! d) = ome_tiff_path (slicers s ! a)"
    using lst [THEN conjunct2, THEN conjunct2, THEN conjunct2, THEN conjunct1]
      keep [THEN conjunct1]
    by (rule trans)
  have ci: "crop_info (slicers s' ! d) = Some (x, y, width, height)"
    by (rule lst [THEN conjunct2, THEN conjunct2, THEN conjunct2, THEN conjunct2, THEN conjunct1])
  have doc: "docs s' ! ome (slicers s' ! d) = docs s ! ome (slicers s ! a)"
    using lst [THEN conjunct2, THEN conjunct2, THEN conjunct2, THEN conjunct2, THEN conjunct2,
               THEN conjunct1]
      keep [THEN conjunct2]
    by (rule trans)
  have na: "get_number_of_channels s a = Inr (size_c (pixels im))"
    by (simp add: get_number_of_channels_def first_image_def im)
  have nd: "get_number_of_channels s' d = Inr (size_c (pixels im))"
    by (simp add: get_number_of_channels_def first_image_def doc im)
  obtain r evs where run: "save_effects L s' d output_path = (r, evs)"
    by (cases "save_effects L s' d output_path") auto
  note calls = save_effects_calls [OF ci nd run, unfolded path]
  have c1: "\<forall>p c acc. NewFromFile p c acc \<in> set (snd (save_effects L s' d output_path))
             \<longrightarrow> p = ome_tiff_path (slicers s ! a)"
    unfolding run snd_conv by (rule calls [THEN conjunct1])
  have c2: "\<forall>x' y' w' h'. VipsCrop x' y' w' h' \<in> set (snd (save_effects L s' d output_path))
             \<longrightarrow> (x', y', w', h') = (x, y, width, height)"
    unfolding run snd_conv by (rule calls [THEN conjunct2, THEN conjunct1])
  have c3: "\<exists>n. get_number_of_channels s a = Inr n
            \<and> (0 < n \<longrightarrow>
                 NewFromFile (ome_tiff_path (slicers s ! a)) 0 ''sequential''
                   \<in> set (snd (save_effects L s' d output_path))
               \<and> (\<forall>img. new_from_file L (ome_tiff_path (slicers s ! a)) 0 ''sequential'' = Inr img
                     \<longrightarrow> VipsCrop x y width height
                           \<in> set (snd (save_effects L s' d output_path))))
            \<and> (fst (save_effects L s' d output_path) = Inr () \<longrightarrow>
                 (\<exists>post. snd (save_effects L s' d output_path)
                           = concat (map (channel_events (ome_tiff_path (slicers s ! a))
                                            x y width height n) (range n)) @ post
                       \<and> (\<forall>e\<in>set post. \<not> is_extraction e)))"
    unfolding run fst_conv snd_conv
    by (rule exI [of _ "size_c (pixels im)"])
       (rule conjI [OF na calls [THEN conjunct2, THEN conjunct2]])
  have c4: "\<exists>d1 s1. crop L s a x y width height = (Inr d1, s1)
            \<and> save_effects L s' d output_path = save_effects L s1 d1 output_path"
    using direct same by blast
  show ?thesis
    by (rule conjI [OF path conjI [OF ci conjI [OF c1 conjI [OF c2 conjI [OF c3 c4]]]]])
qed

theorem crop_chain_last_region_witness:
  "ome_tiff_path (slicers (snd (crop_chain example_libs example_loaded16 0
       [(30, 30, 50, 40), (10, 20, 2, 1)])) ! 2) = ''in16.ome.tiff''
   \<and> crop_info (slicers (snd (crop_chain example_libs example_loaded16 0
       [(30, 30, 50, 40), (10, 20, 2, 1)])) ! 2) = Some (10, 20, 2, 1)
   \<and> NewFromFile ''in16.ome.tiff'' 0 ''sequential''
       \<in> set (snd (save_effects example_libs (snd (crop_chain example_libs example_loaded16 0
              [(30, 30, 50, 40), (10, 20, 2, 1)])) 2 ''out.tiff''))
   \<and> VipsCrop 10 20 2 1
       \<in> set (snd (save_effects example_libs (snd (crop_chain example_libs example_loaded16 0
              [(30, 30, 50, 40), (10, 20, 2, 1)])) 2 ''out.tiff''))
   \<and> (\<exists>post. snd (save_effects example_libs (snd (crop_chain example_libs example_loaded16 0
              [(30, 30, 50, 40), (10, 20, 2, 1)])) 2 ''out.tiff'')
         = concat (map (channel_events ''in16.ome.tiff'' 10 20 2 1 2) (range 2)) @ post)"
proof -
  define S where
    "S = snd (crop_chain example_libs example_loaded16 0 [(30, 30, 50, 40), (10, 20, 2, 1)])"
  have h: "crop_chain example_libs example_loaded16 0 ([(30, 30, 50, 40)] @ [(10, 20, 2, 1)])
             = (Inr 2, S)"
    unfolding S_def by code_simp
  have p: "ome_tiff_path (slicers example_loaded16 ! 0) = ''in16.ome.tiff''" by code_simp
  have n: "get_number_of_channels example_loaded16 0 = Inr 2" by code_simp
  have o: "new_from_file example_libs ''in16.ome.tiff'' 0 ''sequential'' = Inr (0, 100, 80, 2)"
    by (simp add: example_libs_def)
  have r: "fst (save_effects example_libs S 2 ''out.tiff'') = Inr ()"
    unfolding S_def by code_simp
  note t = crop_chain_last_region [OF h, of "''out.tiff''", unfolded p n]
  note t1 = t [THEN conjunct1]
  note t2 = t [THEN conjunct2, THEN conjunct1]
  from t [THEN conjunct2, THEN conjunct2, THEN conjunct2, THEN conjunct2, THEN conjunct1]
  obtain k :: int where k: "Inr 2 = (Inr k :: error + int)"
    and live: "0 < k \<longrightarrow>
                 NewFromFile ''in16.ome.tiff'' 0 ''sequential''
                   \<in> set (snd (save_effects example_libs S 2 ''out.tiff''))
               \<and> (\<forall>img. new_from_file example_libs ''in16.ome.tiff'' 0 ''sequential'' = Inr img
                     \<longrightarrow> VipsCrop 10 20 2 1
                           \<in> set (snd (save_effects example_libs S 2 ''out.tiff'')))"
    and all: "fst (save_effects example_libs S 2 ''out.tiff'') = Inr () \<longrightarrow>
                 (\<exists>post. snd (save_effects example_libs S 2 ''out.tiff'')
                           = concat (map (channel_events ''in16.ome.tiff'' 10 20 2 1 k) (range k))
                             @ post
                       \<and> (\<forall>e\<in>set post. \<not> is_extraction e))"
    by blast
  from k have k2: "k = 2" by simp
  from live k2 have t3: "NewFromFile ''in16.ome.tiff'' 0 ''sequential''
                   \<in> set (snd (save_effects example_libs S 2 ''out.tiff''))"
    and cut: "\<forall>img. new_from_file example_libs ''in16.ome.tiff'' 0 ''sequential'' = Inr img
                     \<longrightarrow> VipsCrop 10 20 2 1
                           \<in> set (snd (save_effects example_libs S 2 ''out.tiff''))"
    by simp_all
  from cut o have t4: "VipsCrop 10 20 2 1 \<in> set (snd (save_effects example_libs S 2 ''out.tiff''))"
    by blast
  from all r k2 have t5: "\<exists>post. snd (save_effects example_libs S 2 ''out.tiff'')
         = concat (map (channel_events ''in16.ome.tiff'' 10 20 2 1 2) (range 2)) @ post"
    by blast
  have "ome_tiff_path (slicers S ! 2) = ''in16.ome.tiff''
   \<and> crop_info (slicers S ! 2) = Some (10, 20, 2, 1)
   \<and> NewFromFile ''in16.ome.tiff'' 0 ''sequential'' \<in> set (snd (save_effects example_libs S 2 ''out.tiff''))
   \<and> VipsCrop 10 20 2 1 \<in> set (snd (save_effects example_libs S 2 ''out.tiff''))
   \<and> (\<exists>post. snd (save_effects example_libs S 2 ''out.tiff'')
         = concat (map (channel_events ''in16.ome.tiff'' 10 20 2 1 2) (range 2)) @ post)"
    by (rule conjI [OF t1 conjI [OF t2 conjI [OF t3 conjI [OF t4 t5]]]])
  then show ?thesis unfolding S_def .
qed

subsection \<open>Saving a crop of an 8-bit source\<close>

text \<open>
  Where the extraction of every channel succeeds, the writer opens and every page write
  succeeds, \<open>save\<close> on a crop returns, having written one page per channel of the source;
  the description of the first page is the serialisation of the source document with
  \<open>size_x\<close> and \<open>size_y\<close> set to the requested width and height; the later pages have no
  description, and no page has a metadata argument.
\<close>

lemma save_output_after_extraction:
  assumes "images (docs s ! ome (slicers s ! p)) = im # rest"
    and "crop L s p x y width height = (Inr d, s')"
    and "get_dtype_from_metadata s p = Inr dt"
    and "\<forall>c\<in>set (range (size_c (pixels im))).
           \<not> isl (fst (extract_channel L (ome_tiff_path (slicers s ! p)) x y width height dt
                         (size_c (pixels im)) c))"
    and "tiff_writer_open L output_path True = None"
    and "\<forall>call. tiff_write L call = None"
  shows "\<exists>evs. save L s' d output_path = (Inr (), s'\<lparr>trace := trace s' @ evs\<rparr>)
       \<and> length (written_pages evs) = nat (size_c (pixels im))
       \<and> (\<forall>i<length (written_pages evs).
            description (written_pages evs ! i) =
              (if i = 0
               then Some (to_xml L ((docs s ! ome (slicers s ! p))
                      \<lparr>images := im\<lparr>pixels := (pixels im)\<lparr>size_x := width, size_y := height\<rparr>\<rparr>
                                 # rest\<rparr>))
               else None)
          \<and> metadata (written_pages evs ! i) = None)"
proof -
  let ?n = "size_c (pixels im)"
  let ?path = "ome_tiff_path (slicers s ! p)"
  let ?md = "Some (to_xml L ((docs s ! ome (slicers s ! p))
                      \<lparr>images := im\<lparr>pixels := (pixels im)\<lparr>size_x := width, size_y := height\<rparr>\<rparr>
                                 # rest\<rparr>))"
  note c = crop_Inr [OF assms(2)]
  from c assms(1) have md: "ome_metadata (slicers s' ! d) = ?md" by auto
  from c have path: "ome_tiff_path (slicers s' ! d) = ?path"
    and ci: "crop_info (slicers s' ! d) = Some (x, y, width, height)"
    and doc: "docs s' ! ome (slicers s' ! d) = docs s ! ome (slicers s ! p)" by auto
  have n: "get_number_of_channels s' d = Inr ?n"
    by (simp add: get_number_of_channels_def doc first_image_def assms(1))
  have dt: "get_dtype_from_metadata s' d = Inr dt"
    using assms(3) by (simp add: get_dtype_from_metadata_def doc)
  obtain r1 e1 where ex: "extract_channels L ?path x y width height dt ?n (range ?n) [] = (r1, e1)"
    by (cases "extract_channels L ?path x y width height dt ?n (range ?n) []") auto
  from extract_channels_ok [OF assms(4), of "[]"] ex obtain arrays where r1: "r1 = Inr arrays"
    by auto
  from extract_channels_events [OF ex] r1 have len: "length arrays = nat ?n" by simp
  from extract_channels_events [OF ex] have wp1: "written_pages e1 = []" by simp
  obtain r2 e2 where wr: "write_channels L ?md arrays ?n (range ?n) = (r2, e2)"
    by (cases "write_channels L ?md arrays ?n (range ?n)") auto
  have valid: "\<forall>c\<in>set (range ?n). 0 \<le> c \<and> c < int (length arrays)"
    using len by (auto dest: set_range)
  from write_channels_ok [OF valid assms(6), of ?md ?n] wr have r2: "r2 = Inr ()" by simp
  from write_channels_pages [OF valid wr] r2
  have pages: "written_pages e2 = map (\<lambda>c. write_args ?md (arrays ! nat c) c) (range ?n)"
    by auto
  let ?evs = "e1 @ [TiffWriterOpen output_path True] @ e2 @ [TiffWriterClose output_path]"
  have run: "save L s' d output_path = (Inr (), s'\<lparr>trace := trace s' @ ?evs\<rparr>)"
    using ci n dt ex r1 wr r2 assms(5) md path
    by (simp add: save_def save_effects_def)
  have wp: "written_pages ?evs = map (\<lambda>c. write_args ?md (arrays ! nat c) c) (range ?n)"
    using wp1 pages by simp
  have "length (written_pages ?evs) = nat ?n
       \<and> (\<forall>i<length (written_pages ?evs).
            description (written_pages ?evs ! i) = (if i = 0 then ?md else None)
          \<and> metadata (written_pages ?evs ! i) = None)"
    unfolding wp by (auto simp add: range_nth write_args_def)
  with run show ?thesis by - (rule exI [of _ ?evs], blast)
qed

text \<open>
  C1 asks this of every region inside the source. The code does not deliver it for a
  source whose pages hold one byte per sample: the element type resolved is
  \<open>np_uint16\<close> whatever the metadata declares, the buffer of a region of 2 by 1 samples
  holds 2 bytes where an array of that shape and type needs 4, the array constructor
  raises for the first channel, and no page is written. The region (10, 20, 2, 1) lies
  inside the 100 by 80 pages of \<^verbatim>\<open>in.ome.tiff\<close>.
\<close>

theorem save_uint8_source_raises:
  "get_image_dimensions example_loaded 0 = Inr (100, 80, 2)
   \<and> crop example_libs example_loaded 0 10 20 2 1 = (Inr 1, example_cropped)
   \<and> get_dtype_from_metadata example_cropped 1 = Inr np_uint16
   \<and> fst (extract_channel example_libs ''in.ome.tiff'' 10 20 2 1 np_uint16 2 0)
       = Inl (TypeError ''buffer is too small for requested array'')
   \<and> save example_libs example_cropped 1 ''out.tiff''
       = (Inl (TypeError ''buffer is too small for requested array''),
          example_cropped\<lparr>trace := trace example_cropped @
            [Print ''Processing channel 1/2'', NewFromFile ''in.ome.tiff'' 0 ''sequential'',
             VipsCrop 10 20 2 1, WriteToMemory]\<rparr>)
   \<and> written_pages (snd (save_effects example_libs example_cropped 1 ''out.tiff'')) = []"
  by code_simp

end
